theory Spec2Isabelle
  imports Main "HOL-Library.Word" "HOL-Library.Multiset"
begin

section \<open>The MultiChoiceVoting contract\<close>

text \<open>
  A shallow embedding of the Solidity contract \<open>MultiChoiceVoting\<close> (the source text that
  follows the Sepolia test suite in \<open>test/MultiChoiceVotingSepolia.ts\<close>). Contract storage
  is a record that every external function takes and returns; a \<open>require\<close> that fails, a
  checked-arithmetic overflow and an out-of-range array access are values of the type
  \<open>error\<close>, and a reverted call leaves the storage as it was (\<open>execute\<close>). Events are not
  part of the storage and are not modelled.
\<close>

subsection \<open>Value types\<close>

type_synonym address = "160 word"
type_synonym uint32 = "32 word"
type_synonym uint64 = "64 word"
type_synonym bytes = "8 word list"

text \<open>
  \<open>uint256\<close> values are natural numbers below \<open>2 ^ 256\<close>; the checked increments of
  Solidity 0.8 (\<open>_pollCount++\<close>, \<open>totalVoters += 1\<close>) revert with \<open>Panic(0x11)\<close> at
  \<open>max_uint256\<close>, an array index out of range with \<open>Panic(0x32)\<close>.
\<close>

definition max_uint256 :: nat where
  "max_uint256 = 2 ^ 256 - 1"

datatype error =
    Revert string
  | Panic nat
  | InvalidInputProof
  | SenderNotAllowed
  | AbiDecodeFailure

subsection \<open>The ciphertext primitive layer\<close>

text \<open>
  Modelled from the spec: the FHE library (\<open>@fhevm/solidity/lib/FHE.sol\<close>) is an external
  dependency whose source is not part of the repository. Section 4.5 of the specification
  gives its contract: encrypted zero, homomorphic add, equality compare, conditional
  select, input-proof verification and a batched threshold-decryption request that returns
  a request id. A ciphertext handle is modelled as the term of the homomorphic operations
  that produced it, so the contract never sees a plaintext; only \<open>decrypt\<close>, which stands
  for the decryption authority, evaluates a handle. The \<open>euint32\<close> arithmetic is 32-bit
  and wraps around.
\<close>

datatype euint32 =
    Uninitialized
  | Trivial uint32
  | Imported nat uint32
  | Add euint32 euint32
  | Select ebool euint32 euint32
and ebool =
    Eq euint32 euint32

fun decrypt :: "euint32 \<Rightarrow> uint32"
and decrypt_bool :: "ebool \<Rightarrow> bool" where
  "decrypt Uninitialized = 0"
| "decrypt (Trivial w) = w"
| "decrypt (Imported h w) = w"
| "decrypt (Add a b) = decrypt a + decrypt b"
| "decrypt (Select c a b) = (if decrypt_bool c then decrypt a else decrypt b)"
| "decrypt_bool (Eq a b) = (decrypt a = decrypt b)"

text \<open>
  Modelled from the spec: an externally supplied ciphertext (\<open>externalEuint32\<close>) is a handle
  with the hidden value it encrypts and the attestation that the proof bytes must match
  (\<open>verifyInputProof(externalCiphertext, proof) -> bool\<close>).
\<close>

datatype externalEuint32 =
  ExternalEuint32 (ext_handle: nat) (ext_value: uint32) (ext_attestation: bytes)

definition verifyInputProof :: "externalEuint32 \<Rightarrow> bytes \<Rightarrow> bool" where
  "verifyInputProof c inputProof = (inputProof = ext_attestation c)"

definition FHE_fromExternal :: "externalEuint32 \<Rightarrow> bytes \<Rightarrow> euint32 option" where
  "FHE_fromExternal c inputProof =
     (if verifyInputProof c inputProof then Some (Imported (ext_handle c) (ext_value c))
      else None)"

definition FHE_asEuint32 :: "uint32 \<Rightarrow> euint32" where
  "FHE_asEuint32 w = Trivial w"

definition FHE_eq :: "euint32 \<Rightarrow> euint32 \<Rightarrow> ebool" where
  "FHE_eq a b = Eq a b"

definition FHE_select :: "ebool \<Rightarrow> euint32 \<Rightarrow> euint32 \<Rightarrow> euint32" where
  "FHE_select c a b = Select c a b"

text \<open>An operand that was never written (the zero handle) stands for encrypted zero.\<close>

definition FHE_add :: "euint32 \<Rightarrow> euint32 \<Rightarrow> euint32" where
  "FHE_add a b =
     Add (if a = Uninitialized then FHE_asEuint32 0 else a)
         (if b = Uninitialized then FHE_asEuint32 0 else b)"

definition FHE_toBytes32 :: "euint32 \<Rightarrow> euint32" where
  "FHE_toBytes32 c = c"

text \<open>
  Modelled from the spec: the specification does not describe the library's access
  control. \<open>FHE.allow\<close> and \<open>FHE.allowThis\<close> record a permission of an account to use and
  decrypt one ciphertext handle; the list only grows. Nobody is allowed on the zero handle
  of a counter that was never written, since no operation produced it.
\<close>

type_synonym acl = "(euint32 \<times> address) set"

definition FHE_allow :: "euint32 \<Rightarrow> address \<Rightarrow> acl \<Rightarrow> acl" where
  "FHE_allow c a perms = insert (c, a) perms"

definition isAllowed :: "acl \<Rightarrow> euint32 \<Rightarrow> address \<Rightarrow> bool" where
  "isAllowed perms c a \<longleftrightarrow> c \<noteq> Uninitialized \<and> (c, a) \<in> perms"

subsection \<open>Contract storage\<close>

record Poll =
  title :: string
  options :: "string list"
  startTime :: uint64
  endTime :: uint64
  creator :: address
  finalized :: bool
  decryptionPending :: bool
  requestId :: nat
  encryptedCounts :: "euint32 list"
  decryptedCounts :: "uint32 list"
  totalVoters :: nat

text \<open>
  The storage of the contract, followed by the storage the FHE library keeps for it: the
  access-control list, the counter that numbers decryption requests and the handles each
  request asked for.
\<close>

record state =
  polls :: "nat \<Rightarrow> Poll"
  pollCount :: nat
  hasVoted :: "nat \<Rightarrow> address \<Rightarrow> bool"
  requestToPoll :: "nat \<Rightarrow> nat"
  permissions :: acl
  counterRequest :: nat
  requestedHandles :: "nat \<Rightarrow> euint32 list"

record env =
  msg_sender :: address
  block_timestamp :: nat
  this_address :: address

definition zero_Poll :: Poll where
  "zero_Poll = \<lparr> title = [], options = [], startTime = 0, endTime = 0, creator = 0,
     finalized = False, decryptionPending = False, requestId = 0, encryptedCounts = [],
     decryptedCounts = [], totalVoters = 0 \<rparr>"

definition init_state :: state where
  "init_state = \<lparr> polls = (\<lambda>_. zero_Poll), pollCount = 0, hasVoted = (\<lambda>_ _. False),
     requestToPoll = (\<lambda>_. 0), permissions = {}, counterRequest = 0,
     requestedHandles = (\<lambda>_. []) \<rparr>"

text \<open>
  Modelled from the spec: \<open>requestThresholdDecryption(Ciphertext[]) -> RequestId\<close>. The
  request takes ciphertexts: the library first has its access control release every handle
  for decryption, and that reverts with \<open>SenderNotAllowed\<close> unless the calling contract is
  allowed on the handle, so a request that holds a never-written counter fails. Otherwise
  the library numbers the requests of a contract with a counter and remembers the handles
  of each request; the decryption authority answers a request with the cleartexts of
  exactly those handles (\<open>oracle_reply\<close>).
\<close>

definition FHE_requestDecryption ::
  "address \<Rightarrow> state \<Rightarrow> euint32 list \<Rightarrow> error + (nat \<times> state)" where
  "FHE_requestDecryption caller s ciphertexts =
     (if \<not> list_all (\<lambda>c. isAllowed (permissions s) c caller) ciphertexts
        then Inl SenderNotAllowed
      else
        Inr (counterRequest s,
             s\<lparr> counterRequest := counterRequest s + 1,
                requestedHandles := (requestedHandles s)(counterRequest s := ciphertexts) \<rparr>))"

definition oracle_reply :: "state \<Rightarrow> nat \<Rightarrow> uint32 list" where
  "oracle_reply s rid = map decrypt (requestedHandles s rid)"

subsection \<open>createPoll\<close>

definition createPoll ::
  "env \<Rightarrow> state \<Rightarrow> string \<Rightarrow> string list \<Rightarrow> uint64 \<Rightarrow> uint64 \<Rightarrow> error + (nat \<times> state)" where
  "createPoll e s titleArg optionsArg startTimeArg endTimeArg =
     (if \<not> length titleArg > 0 then Inl (Revert ''Title cannot be empty'')
      else if \<not> (length optionsArg \<ge> 2 \<and> length optionsArg \<le> 16)
        then Inl (Revert ''Must have 2-16 options'')
      else if \<not> endTimeArg > startTimeArg
        then Inl (Revert ''End time must be after start time'')
      else if \<not> unat endTimeArg > block_timestamp e
        then Inl (Revert ''End time must be in the future'')
      else if pollCount s = max_uint256 then Inl (Panic 0x11)
      else
        let pollId = pollCount s;
            poll = (polls s pollId)\<lparr>
              title := titleArg,
              options := optionsArg,
              startTime := startTimeArg,
              endTime := endTimeArg,
              creator := msg_sender e,
              finalized := False,
              decryptionPending := False,
              requestId := 0,
              totalVoters := 0,
              encryptedCounts := replicate (length optionsArg) Uninitialized,
              decryptedCounts := replicate (length optionsArg) 0 \<rparr>
        in Inr (pollId, s\<lparr> pollCount := pollCount s + 1,
                           polls := (polls s)(pollId := poll) \<rparr>))"

subsection \<open>vote\<close>

text \<open>
  The loop over the options: for each index \<open>i\<close> below \<open>options.length\<close> the counter
  \<open>encryptedCounts[i]\<close> receives \<open>select(voteIndex == i, 1, 0)\<close>, and the new handle is
  allowed to the contract, to the sender and to the creator.
\<close>

function vote_loop ::
  "env \<Rightarrow> address \<Rightarrow> euint32 \<Rightarrow> nat \<Rightarrow> nat \<Rightarrow> euint32 list \<Rightarrow> acl
     \<Rightarrow> error + (euint32 list \<times> acl)" where
  "vote_loop e creatorArg voteIndex n i counts perms =
     (if i < n then
        (if i < length counts then
           let isMatch = FHE_eq voteIndex (FHE_asEuint32 (of_nat i));
               increment = FHE_select isMatch (FHE_asEuint32 1) (FHE_asEuint32 0);
               c = FHE_add (counts ! i) increment;
               perms1 = FHE_allow c (this_address e) perms;
               perms2 = FHE_allow c (msg_sender e) perms1;
               perms3 = FHE_allow c creatorArg perms2
           in vote_loop e creatorArg voteIndex n (i + 1) (counts[i := c]) perms3
         else Inl (Panic 0x32))
      else Inr (counts, perms))"
  by pat_completeness auto
termination
  by (relation "measure (\<lambda>(e, cr, v, n, i, counts, perms). n - i)") auto

declare vote_loop.simps [simp del]

definition vote ::
  "env \<Rightarrow> state \<Rightarrow> nat \<Rightarrow> externalEuint32 \<Rightarrow> bytes \<Rightarrow> error + state" where
  "vote e s pollId encryptedOptionIndex inputProof =
     (if \<not> pollId < pollCount s then Inl (Revert ''Poll does not exist'')
      else
        let poll = polls s pollId in
        if \<not> block_timestamp e \<ge> unat (startTime poll)
          then Inl (Revert ''Voting has not started'')
        else if \<not> block_timestamp e \<le> unat (endTime poll)
          then Inl (Revert ''Voting has ended'')
        else if \<not> \<not> finalized poll then Inl (Revert ''Poll is finalized'')
        else if \<not> \<not> hasVoted s pollId (msg_sender e) then Inl (Revert ''Already voted'')
        else
          (case FHE_fromExternal encryptedOptionIndex inputProof of
             None \<Rightarrow> Inl InvalidInputProof
           | Some voteIndex \<Rightarrow>
               (case vote_loop e (creator poll) voteIndex (length (options poll)) 0
                       (encryptedCounts poll) (permissions s) of
                  Inl err \<Rightarrow> Inl err
                | Inr (counts, perms) \<Rightarrow>
                    if totalVoters poll = max_uint256 then Inl (Panic 0x11)
                    else Inr (s\<lparr>
                      polls := (polls s)(pollId := poll\<lparr>
                        encryptedCounts := counts,
                        totalVoters := totalVoters poll + 1 \<rparr>),
                      hasVoted := (hasVoted s)(pollId :=
                        (hasVoted s pollId)(msg_sender e := True)),
                      permissions := perms \<rparr>))))"

subsection \<open>requestFinalization\<close>

text \<open>
  The time restriction \<open>block.timestamp > poll.endTime\<close> is commented out in the source
  (``REMOVED: Time restriction - allow decryption anytime for testing''), so the model has
  no such check. The contract passes its own address to the library as the caller of the
  decryption request.
\<close>

definition requestFinalization :: "env \<Rightarrow> state \<Rightarrow> nat \<Rightarrow> error + state" where
  "requestFinalization e s pollId =
     (if \<not> pollId < pollCount s then Inl (Revert ''Poll does not exist'')
      else
        let poll = polls s pollId in
        if \<not> \<not> finalized poll then Inl (Revert ''Poll already finalized'')
        else if \<not> \<not> decryptionPending poll then Inl (Revert ''Decryption already pending'')
        else
          let ciphertexts = map FHE_toBytes32 (encryptedCounts poll) in
          (case FHE_requestDecryption (this_address e) s ciphertexts of
             Inl err \<Rightarrow> Inl err
           | Inr (rid, s1) \<Rightarrow>
               Inr (s1\<lparr>
                 polls := (polls s1)(pollId := poll\<lparr>
                   decryptionPending := True,
                   requestId := rid \<rparr>),
                 requestToPoll := (requestToPoll s1)(rid := pollId) \<rparr>)))"

subsection \<open>decryptionCallback\<close>

text \<open>
  The argument \<open>cleartexts\<close> is a byte string that the function passes to
  \<open>abi.decode(cleartexts, (uint32[]))\<close>, a builtin of the language. The model takes the
  outcome of that decoding: \<open>None\<close> for bytes that do not decode (the call reverts), or the
  decoded array. The call to \<open>FHE.checkSignatures(requestId, signatures)\<close> is commented out
  in the source, so \<open>signatures\<close> is not read, and the function is \<open>public\<close> with no test
  of \<open>msg.sender\<close>.
\<close>

function store_results :: "uint32 list \<Rightarrow> nat \<Rightarrow> uint32 list \<Rightarrow> error + uint32 list" where
  "store_results results i stored =
     (if i < length results then
        (if i < length stored then store_results results (i + 1) (stored[i := results ! i])
         else Inl (Panic 0x32))
      else Inr stored)"
  by pat_completeness auto
termination
  by (relation "measure (\<lambda>(results, i, stored). length results - i)") auto

declare store_results.simps [simp del]

definition decryptionCallback ::
  "env \<Rightarrow> state \<Rightarrow> nat \<Rightarrow> uint32 list option \<Rightarrow> bytes list \<Rightarrow> error + (bool \<times> state)" where
  "decryptionCallback e s requestIdArg cleartexts signatures =
     (let pollId = requestToPoll s requestIdArg in
      if \<not> pollId < pollCount s then Inl (Revert ''Invalid request ID'')
      else
        let poll = polls s pollId in
        if \<not> (decryptionPending poll \<and> requestId poll = requestIdArg)
          then Inl (Revert ''No pending decryption'')
        else
          (case cleartexts of
             None \<Rightarrow> Inl AbiDecodeFailure
           | Some results \<Rightarrow>
               if \<not> length results = length (encryptedCounts poll)
                 then Inl (Revert ''Result length mismatch'')
               else
                 (case store_results results 0 (decryptedCounts poll) of
                    Inl err \<Rightarrow> Inl err
                  | Inr stored \<Rightarrow>
                      Inr (True, s\<lparr> polls := (polls s)(pollId := poll\<lparr>
                        decryptedCounts := stored,
                        finalized := True,
                        decryptionPending := False \<rparr>) \<rparr>))))"

subsection \<open>View functions\<close>

definition getPollCount :: "state \<Rightarrow> nat" where
  "getPollCount s = pollCount s"

definition getEncryptedCounts :: "state \<Rightarrow> nat \<Rightarrow> error + euint32 list" where
  "getEncryptedCounts s pollId =
     (if \<not> pollId < pollCount s then Inl (Revert ''Poll does not exist'')
      else Inr (map FHE_toBytes32 (encryptedCounts (polls s pollId))))"

definition getResults :: "state \<Rightarrow> nat \<Rightarrow> error + uint32 list" where
  "getResults s pollId =
     (if \<not> pollId < pollCount s then Inl (Revert ''Poll does not exist'')
      else if \<not> finalized (polls s pollId) then Inl (Revert ''Poll not finalized'')
      else Inr (decryptedCounts (polls s pollId)))"

definition hasUserVoted :: "state \<Rightarrow> nat \<Rightarrow> address \<Rightarrow> error + bool" where
  "hasUserVoted s pollId user =
     (if \<not> pollId < pollCount s then Inl (Revert ''Poll does not exist'')
      else Inr (hasVoted s pollId user))"

definition getTotalVoters :: "state \<Rightarrow> nat \<Rightarrow> error + nat" where
  "getTotalVoters s pollId =
     (if \<not> pollId < pollCount s then Inl (Revert ''Poll does not exist'')
      else Inr (totalVoters (polls s pollId)))"

definition getRequestId :: "state \<Rightarrow> nat \<Rightarrow> error + nat" where
  "getRequestId s pollId =
     (if \<not> pollId < pollCount s then Inl (Revert ''Poll does not exist'')
      else Inr (requestId (polls s pollId)))"

subsection \<open>Transactions\<close>

text \<open>
  A transaction is one external call with its sender and block time. A call that reverts
  rolls the storage back, so \<open>execute\<close> returns the storage it was given.
\<close>

datatype call =
    CreatePoll string "string list" uint64 uint64
  | Vote nat externalEuint32 bytes
  | RequestFinalization nat
  | DecryptionCallback nat "uint32 list option" "bytes list"

fun dispatch :: "env \<Rightarrow> state \<Rightarrow> call \<Rightarrow> error + state" where
  "dispatch e s (CreatePoll t os st en) = map_sum id snd (createPoll e s t os st en)"
| "dispatch e s (Vote p c pr) = vote e s p c pr"
| "dispatch e s (RequestFinalization p) = requestFinalization e s p"
| "dispatch e s (DecryptionCallback r cs sigs) =
     map_sum id snd (decryptionCallback e s r cs sigs)"

definition execute :: "state \<Rightarrow> env \<times> call \<Rightarrow> state" where
  "execute s tx = (case dispatch (fst tx) s (snd tx) of Inl err \<Rightarrow> s | Inr s' \<Rightarrow> s')"

definition run :: "state \<Rightarrow> (env \<times> call) list \<Rightarrow> state" where
  "run s txs = foldl execute s txs"

inductive reachable :: "state \<Rightarrow> bool" where
  reachable_init: "reachable init_state"
| reachable_step: "reachable s \<Longrightarrow> reachable (execute s tx)"

subsection \<open>Lifecycle of a poll\<close>

text \<open>
  The contract keeps two flags per poll. A poll whose \<open>finalized\<close> flag is set is
  \<open>Finalized\<close>; otherwise a poll whose \<open>decryptionPending\<close> flag is set is
  \<open>DecryptionPending\<close>; otherwise it is \<open>Open\<close>.
\<close>

datatype lifecycle = Open | DecryptionPending | Finalized

definition lifecycleState :: "Poll \<Rightarrow> lifecycle" where
  "lifecycleState P =
     (if finalized P then Finalized
      else if decryptionPending P then DecryptionPending
      else Open)"

fun stage :: "lifecycle \<Rightarrow> nat" where
  "stage Open = 0"
| "stage DecryptionPending = 1"
| "stage Finalized = 2"

subsection \<open>Closed forms and the storage invariant\<close>

text \<open>What one pass of the voting loop writes to counter \<open>i\<close>, and the grants it records.\<close>

definition tally :: "euint32 \<Rightarrow> nat \<Rightarrow> euint32 \<Rightarrow> euint32" where
  "tally v i c =
     FHE_add c (FHE_select (FHE_eq v (FHE_asEuint32 (of_nat i)))
                  (FHE_asEuint32 1) (FHE_asEuint32 0))"

definition grants :: "env \<Rightarrow> address \<Rightarrow> euint32 \<Rightarrow> acl" where
  "grants e cr c = {(c, this_address e), (c, msg_sender e), (c, cr)}"

definition voted :: "env \<Rightarrow> state \<Rightarrow> nat \<Rightarrow> euint32 \<Rightarrow> state" where
  "voted e s p v =
     s\<lparr> polls := (polls s)(p := (polls s p)\<lparr>
           encryptedCounts :=
             map (\<lambda>j. tally v j (encryptedCounts (polls s p) ! j))
               [0..<length (options (polls s p))],
           totalVoters := totalVoters (polls s p) + 1 \<rparr>),
        hasVoted := (hasVoted s)(p := (hasVoted s p)(msg_sender e := True)),
        permissions := permissions s \<union>
          (\<Union>j\<in>{0..<length (options (polls s p))}.
             grants e (creator (polls s p)) (tally v j (encryptedCounts (polls s p) ! j))) \<rparr>"

text \<open>The storage after an accepted finalization request for poll \<open>p\<close>.\<close>

definition requested :: "state \<Rightarrow> nat \<Rightarrow> state" where
  "requested s p =
     s\<lparr> counterRequest := counterRequest s + 1,
        requestedHandles := (requestedHandles s)(counterRequest s := encryptedCounts (polls s p)),
        polls := (polls s)(p := (polls s p)\<lparr> decryptionPending := True,
                                              requestId := counterRequest s \<rparr>),
        requestToPoll := (requestToPoll s)(counterRequest s := p) \<rparr>"

definition storage_inv :: "state \<Rightarrow> bool" where
  "storage_inv s \<longleftrightarrow>
     (\<forall>p<pollCount s.
        length (encryptedCounts (polls s p)) = length (options (polls s p)) \<and>
        length (decryptedCounts (polls s p)) = length (options (polls s p)) \<and>
        2 \<le> length (options (polls s p)) \<and> length (options (polls s p)) \<le> 16 \<and>
        \<not> (finalized (polls s p) \<and> decryptionPending (polls s p)) \<and>
        totalVoters (polls s p) = card {a. hasVoted s p a}) \<and>
     (\<forall>p a. pollCount s \<le> p \<longrightarrow> \<not> hasVoted s p a)"

text \<open>
  In a reachable state the creator of a poll that has received a vote is allowed on every
  current accumulator of the poll (\<open>creator_inv\<close>).
\<close>

definition creator_inv :: "state \<Rightarrow> bool" where
  "creator_inv s \<longleftrightarrow>
     (\<forall>p<pollCount s. 0 < totalVoters (polls s p) \<longrightarrow>
        (\<forall>c\<in>set (encryptedCounts (polls s p)). (c, creator (polls s p)) \<in> permissions s))"

subsection \<open>Ballots, histograms and finalization by the decryption authority\<close>









subsection \<open>A concrete run\<close>

text \<open>
  Alice creates a poll with two options and the voting window \<open>[0, 1000]\<close>; Bob votes for
  option 0; Alice requests finalization at time 30, inside the window; Carol votes for
  option 1 at time 40; the decryption authority answers the request at time 50.
\<close>

definition contract_address :: address where "contract_address = 0xC0"
definition alice :: address where "alice = 0xA1"
definition bob :: address where "bob = 0xB0"
definition carol :: address where "carol = 0xCA"
definition mallory :: address where "mallory = 0x66"
definition authority :: address where "authority = 0xDA"

definition tx_env :: "address \<Rightarrow> nat \<Rightarrow> env" where
  "tx_env a t = \<lparr> msg_sender = a, block_timestamp = t, this_address = contract_address \<rparr>"

definition sealed :: "nat \<Rightarrow> uint32 \<Rightarrow> externalEuint32" where
  "sealed h v = ExternalEuint32 h v [0x5A]"

definition demo_created :: state where
  "demo_created =
     execute init_state (tx_env alice 10, CreatePoll ''Q'' [''A'', ''B''] 0 1000)"

definition demo_voted :: state where
  "demo_voted = execute demo_created (tx_env bob 20, Vote 0 (sealed 11 0) [0x5A])"

definition demo_pending :: state where
  "demo_pending = execute demo_voted (tx_env alice 30, RequestFinalization 0)"

definition demo_late :: state where
  "demo_late = execute demo_pending (tx_env carol 40, Vote 0 (sealed 12 1) [0x5A])"

definition demo_final :: state where
  "demo_final =
     execute demo_late
       (tx_env authority 50, DecryptionCallback 0 (Some (oracle_reply demo_late 0)) [])"

definition demo_forged :: state where
  "demo_forged =
     execute demo_pending (tx_env mallory 35, DecryptionCallback 0 (Some [0, 99]) [])"

definition demo_spoiled :: state where
  "demo_spoiled = execute demo_created (tx_env carol 25, Vote 0 (sealed 13 7) [0x5A])"

text \<open>
  A third run: Carol votes for option 1 right after Bob, before finalization is requested.
\<close>

definition demo_two :: state where
  "demo_two = execute demo_voted (tx_env carol 25, Vote 0 (sealed 12 1) [0x5A])"







section \<open>Properties\<close>

subsection \<open>The loops\<close>

lemma decrypt_FHE_add: "decrypt (FHE_add a b) = decrypt a + decrypt b"
  by (simp add: FHE_add_def FHE_asEuint32_def)

lemma decrypt_tally:
  "decrypt (tally v i c) = decrypt c + (if decrypt v = of_nat i then 1 else 0)"
  by (simp add: tally_def decrypt_FHE_add FHE_select_def FHE_eq_def FHE_asEuint32_def)

lemma vote_loop_closed:
  "i \<le> n \<Longrightarrow> n \<le> length counts \<Longrightarrow>
   vote_loop e cr v n i counts perms =
     Inr (map (\<lambda>j. if i \<le> j \<and> j < n then tally v j (counts ! j) else counts ! j) [0..<length counts],
          perms \<union> (\<Union>j\<in>{i..<n}. grants e cr (tally v j (counts ! j))))"
proof (induction e cr v n i counts perms rule: vote_loop.induct)
  case (1 e cr v n i counts perms)
  show ?case
  proof (cases "i < n")
    case False
    with 1(2) have "i = n" by simp
    then show ?thesis
      by (subst vote_loop.simps) (auto intro!: nth_equalityI)
  next
    case True
    with 1(3) have il: "i < length counts" by simp
    let ?c = "tally v i (counts ! i)"
    let ?P = "FHE_allow ?c cr (FHE_allow ?c (msg_sender e) (FHE_allow ?c (this_address e) perms))"
    have g: "?P = perms \<union> grants e cr ?c"
      by (auto simp: grants_def FHE_allow_def)
    have step: "vote_loop e cr v n i counts perms =
          vote_loop e cr v n (i + 1) (counts[i := ?c]) ?P"
      using True il
      by (subst vote_loop.simps) (simp add: Let_def tally_def)
    have ih: "vote_loop e cr v n (i + 1) (counts[i := ?c]) ?P =
       Inr (map (\<lambda>j. if i + 1 \<le> j \<and> j < n then tally v j (counts[i := ?c] ! j) else counts[i := ?c] ! j)
              [0..<length (counts[i := ?c])],
           ?P \<union> (\<Union>j\<in>{i + 1..<n}. grants e cr (tally v j (counts[i := ?c] ! j))))"
      using 1(1)[OF True il refl refl refl refl refl refl] True il 1(3)
      by (simp add: tally_def)
    have m: "map (\<lambda>j. if i + 1 \<le> j \<and> j < n then tally v j (counts[i := ?c] ! j) else counts[i := ?c] ! j)
              [0..<length (counts[i := ?c])] =
          map (\<lambda>j. if i \<le> j \<and> j < n then tally v j (counts ! j) else counts ! j) [0..<length counts]"
      using True il by (auto simp: nth_list_update)
    have "{i..<n} = insert i {i + 1..<n}" using True by auto
    then have u: "?P \<union> (\<Union>j\<in>{i + 1..<n}. grants e cr (tally v j (counts[i := ?c] ! j)))
        = perms \<union> (\<Union>j\<in>{i..<n}. grants e cr (tally v j (counts ! j)))"
      unfolding g by (auto simp: nth_list_update)
    show ?thesis unfolding step ih m u ..
  qed
qed

lemma store_results_closed:
  "i \<le> length results \<Longrightarrow> length results \<le> length stored \<Longrightarrow>
   store_results results i stored =
     Inr (map (\<lambda>j. if i \<le> j \<and> j < length results then results ! j else stored ! j) [0..<length stored])"
proof (induction results i stored rule: store_results.induct)
  case (1 results i stored)
  show ?case
  proof (cases "i < length results")
    case False
    with 1(2) have "i = length results" by simp
    then show ?thesis by (subst store_results.simps) (auto intro!: nth_equalityI)
  next
    case True
    with 1(3) have il: "i < length stored" by simp
    have "store_results results i stored = store_results results (i + 1) (stored[i := results ! i])"
      using True il by (subst store_results.simps) simp
    also have "\<dots> = Inr (map (\<lambda>j. if i + 1 \<le> j \<and> j < length results then results ! j else stored[i := results ! i] ! j)
         [0..<length (stored[i := results ! i])])"
      using True il 1(3) by (intro 1(1)[OF True il]) auto
    also have "\<dots> = Inr (map (\<lambda>j. if i \<le> j \<and> j < length results then results ! j else stored ! j) [0..<length stored])"
      using True il by (auto simp: nth_list_update)
    finally show ?thesis .
  qed
qed

lemma store_results_all:
  "length results = length stored \<Longrightarrow> store_results results 0 stored = Inr results"
  by (auto simp: store_results_closed intro!: nth_equalityI)

lemma vote_loop_all:
  assumes "length counts = n"
  shows "vote_loop e cr v n 0 counts perms =
     Inr (map (\<lambda>j. tally v j (counts ! j)) [0..<n],
          perms \<union> (\<Union>j\<in>{0..<n}. grants e cr (tally v j (counts ! j))))"
proof -
  have "map (\<lambda>j. if 0 \<le> j \<and> j < n then tally v j (counts ! j) else counts ! j) [0..<length counts]
      = map (\<lambda>j. tally v j (counts ! j)) [0..<n]"
    using assms by auto
  then show ?thesis
    using vote_loop_closed[of 0 n counts e cr v perms] assms by simp
qed

lemma card_address_bound: "card (A :: address set) < max_uint256"
proof -
  have "card A \<le> card (UNIV :: address set)"
    by (rule card_mono) auto
  also have "\<dots> = 2 ^ 160" by (simp add: card_word)
  also have "\<dots> < max_uint256" by (simp add: max_uint256_def)
  finally show ?thesis .
qed

lemma vote_accept:
  assumes "storage_inv s" "p < pollCount s"
    "unat (startTime (polls s p)) \<le> block_timestamp e"
    "block_timestamp e \<le> unat (endTime (polls s p))"
    "\<not> finalized (polls s p)" "\<not> hasVoted s p (msg_sender e)"
    "verifyInputProof c pr"
  shows "vote e s p c pr = Inr (voted e s p (Imported (ext_handle c) (ext_value c)))"
proof -
  have len: "length (encryptedCounts (polls s p)) = length (options (polls s p))"
    and tv: "totalVoters (polls s p) = card {a. hasVoted s p a}"
    using assms(1,2) by (auto simp: storage_inv_def)
  have "totalVoters (polls s p) \<noteq> max_uint256"
    using card_address_bound[of "{a. hasVoted s p a}"] tv by simp
  then show ?thesis
    using assms(2-) 
    by (simp add: vote_def Let_def FHE_fromExternal_def vote_loop_all[OF len] voted_def)
qed

lemma vote_InrD:
  assumes "vote e s p c pr = Inr s'" "storage_inv s"
  shows "p < pollCount s \<and> unat (startTime (polls s p)) \<le> block_timestamp e \<and>
     block_timestamp e \<le> unat (endTime (polls s p)) \<and> \<not> finalized (polls s p) \<and>
     \<not> hasVoted s p (msg_sender e) \<and> verifyInputProof c pr \<and>
     s' = voted e s p (Imported (ext_handle c) (ext_value c))"
proof -
  have c: "p < pollCount s" "unat (startTime (polls s p)) \<le> block_timestamp e"
     "block_timestamp e \<le> unat (endTime (polls s p))" "\<not> finalized (polls s p)"
     "\<not> hasVoted s p (msg_sender e)" "verifyInputProof c pr"
    using assms(1)
    by (auto simp: vote_def Let_def FHE_fromExternal_def split: if_splits option.splits)
  from vote_accept[OF assms(2) c] assms(1) c show ?thesis by simp
qed

lemma storage_inv_init: "storage_inv init_state"
  by (simp add: storage_inv_def init_state_def)

lemma card_Collect_upd:
  fixes f :: "address \<Rightarrow> bool"
  assumes "\<not> f a"
  shows "card (Collect (f(a := True))) = Suc (card (Collect f))"
proof -
  have "Collect (f(a := True)) = insert a (Collect f)" by auto
  then show ?thesis using assms by simp
qed

lemma storage_inv_voted:
  assumes "storage_inv s" "p < pollCount s" "\<not> hasVoted s p (msg_sender e)"
  shows "storage_inv (voted e s p v)"
  using assms unfolding storage_inv_def voted_def
  by (auto simp: card_Collect_upd)

lemma storage_inv_vote:
  assumes "storage_inv s" "vote e s p c pr = Inr s'"
  shows "storage_inv s'"
  using vote_InrD[OF assms(2,1)] storage_inv_voted[OF assms(1)] by blast

lemma createPoll_InrD:
  assumes "createPoll e s t os st en = Inr (pid, s')"
  shows "length t > 0 \<and> 2 \<le> length os \<and> length os \<le> 16 \<and> st < en \<and>
     block_timestamp e < unat en \<and> pollCount s \<noteq> max_uint256 \<and> pid = pollCount s \<and>
     s' = s\<lparr> pollCount := pollCount s + 1,
             polls := (polls s)(pollCount s := (polls s (pollCount s))\<lparr> title := t,
               options := os, startTime := st,
               endTime := en, creator := msg_sender e, finalized := False,
               decryptionPending := False, requestId := 0, totalVoters := 0,
               encryptedCounts := replicate (length os) Uninitialized,
               decryptedCounts := replicate (length os) 0 \<rparr>) \<rparr>"
  using assms
  by (auto simp: createPoll_def Let_def split: if_splits)

lemma storage_inv_createPoll:
  assumes "storage_inv s" "createPoll e s t os st en = Inr (pid, s')"
  shows "storage_inv s'"
  using assms(1) createPoll_InrD[OF assms(2)]
  by (auto simp: storage_inv_def less_Suc_eq)

lemma map_FHE_toBytes32: "map FHE_toBytes32 cs = cs"
  by (induction cs) (simp_all add: FHE_toBytes32_def)

lemma requestFinalization_accept:
  assumes "p < pollCount s" and "\<not> finalized (polls s p)" and "\<not> decryptionPending (polls s p)"
    and "list_all (\<lambda>c. isAllowed (permissions s) c (this_address e)) (encryptedCounts (polls s p))"
  shows "requestFinalization e s p = Inr (requested s p)"
  using assms
  by (simp add: requestFinalization_def Let_def FHE_requestDecryption_def map_FHE_toBytes32
        requested_def)

lemma requestFinalization_refuse:
  assumes "p < pollCount s" and "\<not> finalized (polls s p)" and "\<not> decryptionPending (polls s p)"
    and "\<not> list_all (\<lambda>c. isAllowed (permissions s) c (this_address e)) (encryptedCounts (polls s p))"
  shows "requestFinalization e s p = Inl SenderNotAllowed"
  using assms
  by (simp add: requestFinalization_def Let_def FHE_requestDecryption_def map_FHE_toBytes32)

lemma requestFinalization_InrD:
  assumes "requestFinalization e s p = Inr s'"
  shows "p < pollCount s \<and> \<not> finalized (polls s p) \<and> \<not> decryptionPending (polls s p) \<and>
     list_all (\<lambda>c. isAllowed (permissions s) c (this_address e)) (encryptedCounts (polls s p)) \<and>
     s' = s\<lparr> counterRequest := counterRequest s + 1,
             requestedHandles := (requestedHandles s)(counterRequest s := encryptedCounts (polls s p)),
             polls := (polls s)(p := (polls s p)\<lparr> decryptionPending := True,
                                                   requestId := counterRequest s \<rparr>),
             requestToPoll := (requestToPoll s)(counterRequest s := p) \<rparr>"
  using assms
  by (auto simp: requestFinalization_def Let_def FHE_requestDecryption_def map_FHE_toBytes32
           split: if_splits)

lemma tally_initialized: "tally v j c \<noteq> Uninitialized"
  by (simp add: tally_def FHE_add_def)

lemma voted_allows_this:
  "list_all (\<lambda>c. isAllowed (permissions (voted e s p v)) c (this_address e))
     (encryptedCounts (polls (voted e s p v) p))"
proof -
  have "isAllowed (permissions (voted e s p v))
          (tally v j (encryptedCounts (polls s p) ! j)) (this_address e)"
    if "j < length (options (polls s p))" for j
  proof -
    have "(tally v j (encryptedCounts (polls s p) ! j), this_address e)
        \<in> permissions (voted e s p v)"
      using that by (auto simp: voted_def grants_def intro!: bexI[of _ j])
    then show ?thesis by (simp add: isAllowed_def tally_initialized)
  qed
  then show ?thesis by (simp add: voted_def list_all_iff)
qed

lemma storage_inv_requestFinalization:
  assumes "storage_inv s" "requestFinalization e s p = Inr s'"
  shows "storage_inv s'"
  using assms(1) requestFinalization_InrD[OF assms(2)]
  by (auto simp: storage_inv_def)

lemma decryptionCallback_InrD:
  assumes "decryptionCallback e s r cs sigs = Inr (b, s')" "storage_inv s"
  shows "requestToPoll s r < pollCount s \<and> decryptionPending (polls s (requestToPoll s r)) \<and>
     requestId (polls s (requestToPoll s r)) = r \<and>
     (\<exists>results. cs = Some results \<and>
        length results = length (options (polls s (requestToPoll s r))) \<and> b \<and>
        s' = s\<lparr> polls := (polls s)(requestToPoll s r := (polls s (requestToPoll s r))\<lparr>
                 decryptedCounts := results, finalized := True,
                 decryptionPending := False \<rparr>) \<rparr>)"
proof -
  let ?p = "requestToPoll s r"
  have c: "?p < pollCount s" "decryptionPending (polls s ?p)" "requestId (polls s ?p) = r"
    using assms(1)
    by (auto simp: decryptionCallback_def Let_def split: if_splits)
  then obtain results where r: "cs = Some results"
      "length results = length (encryptedCounts (polls s ?p))"
    using assms(1)
    by (auto simp: decryptionCallback_def Let_def split: if_splits option.splits)
  have len: "length (encryptedCounts (polls s ?p)) = length (options (polls s ?p))"
      "length (decryptedCounts (polls s ?p)) = length (options (polls s ?p))"
    using assms(2) c(1) by (auto simp: storage_inv_def)
  have "store_results results 0 (decryptedCounts (polls s ?p)) = Inr results"
    using r(2) len by (simp add: store_results_all)
  then show ?thesis
    using assms(1) c r len
    by (auto simp: decryptionCallback_def Let_def)
qed

lemma storage_inv_decryptionCallback:
  assumes "storage_inv s" "decryptionCallback e s r cs sigs = Inr (b, s')"
  shows "storage_inv s'"
  using assms(1) decryptionCallback_InrD[OF assms(2,1)]
  by (auto simp: storage_inv_def split: if_splits)

lemma storage_inv_execute: "storage_inv s \<Longrightarrow> storage_inv (execute s tx)"
proof (cases tx)
  case (Pair e c)
  assume i: "storage_inv s"
  show ?thesis
  proof (cases c)
    case (CreatePoll t os st en)
    then show ?thesis using i Pair storage_inv_createPoll[OF i, of e t os st en]
      by (cases "createPoll e s t os st en") (auto simp: execute_def)
  next
    case (Vote p ct pr)
    then show ?thesis using i Pair storage_inv_vote[OF i, of e p ct pr]
      by (cases "vote e s p ct pr") (auto simp: execute_def)
  next
    case (RequestFinalization p)
    then show ?thesis using i Pair storage_inv_requestFinalization[OF i, of e p]
      by (cases "requestFinalization e s p") (auto simp: execute_def)
  next
    case (DecryptionCallback r cs sigs)
    then show ?thesis using i Pair storage_inv_decryptionCallback[OF i, of e r cs sigs]
      by (cases "decryptionCallback e s r cs sigs") (auto simp: execute_def)
  qed
qed

lemma reachable_storage_inv: "reachable s \<Longrightarrow> storage_inv s"
  by (induction rule: reachable.induct) (auto simp: storage_inv_init storage_inv_execute)

subsection \<open>Reachability and the concrete run\<close>

lemma reachable_run: "reachable s \<Longrightarrow> reachable (run s txs)"
  unfolding run_def
  by (induction txs arbitrary: s) (auto intro: reachable_step)

lemma demo_created_eq:
  "demo_created = init_state\<lparr> pollCount := 1,
     polls := (polls init_state)(0 := zero_Poll\<lparr> title := ''Q'', options := [''A'', ''B''],
       startTime := 0, endTime := 1000, creator := alice, finalized := False,
       decryptionPending := False, requestId := 0, totalVoters := 0,
       encryptedCounts := [Uninitialized, Uninitialized], decryptedCounts := [0, 0] \<rparr>) \<rparr>"
  by (simp add: demo_created_def execute_def createPoll_def init_state_def tx_env_def
        max_uint256_def Let_def)

lemma reachable_demo_created: "reachable demo_created"
  unfolding demo_created_def by (intro reachable_step reachable_init)

lemma reachable_demo_voted: "reachable demo_voted"
  unfolding demo_voted_def by (intro reachable_step reachable_demo_created)

lemma reachable_demo_pending: "reachable demo_pending"
  unfolding demo_pending_def by (intro reachable_step reachable_demo_voted)

lemma reachable_demo_late: "reachable demo_late"
  unfolding demo_late_def by (intro reachable_step reachable_demo_pending)

lemma reachable_demo_final: "reachable demo_final"
  unfolding demo_final_def by (intro reachable_step reachable_demo_late)

lemma demo_created_facts:
  "pollCount demo_created = 1"
  "options (polls demo_created 0) = [''A'', ''B'']"
  "startTime (polls demo_created 0) = 0"
  "endTime (polls demo_created 0) = 1000"
  "creator (polls demo_created 0) = alice"
  "\<not> finalized (polls demo_created 0)"
  "\<not> decryptionPending (polls demo_created 0)"
  "totalVoters (polls demo_created 0) = 0"
  "encryptedCounts (polls demo_created 0) = [Uninitialized, Uninitialized]"
  "decryptedCounts (polls demo_created 0) = [0, 0]"
  "hasVoted demo_created = (\<lambda>_ _. False)"
  "counterRequest demo_created = 0"
  "permissions demo_created = {}"
  by (simp_all add: demo_created_eq init_state_def)

lemma demo_vote_bob:
  "vote (tx_env bob 20) demo_created 0 (sealed 11 0) [0x5A]
     = Inr (voted (tx_env bob 20) demo_created 0 (Imported 11 0))"
  using vote_accept[OF reachable_storage_inv[OF reachable_demo_created],
          of 0 "tx_env bob 20" "sealed 11 0" "[0x5A]"]
  by (simp add: demo_created_facts tx_env_def sealed_def verifyInputProof_def)

lemma demo_voted_eq: "demo_voted = voted (tx_env bob 20) demo_created 0 (Imported 11 0)"
  by (simp add: demo_voted_def execute_def demo_vote_bob)

lemma upt_2: "[0..<2] = [0, Suc 0]"
  by (simp add: upt_rec numeral_2_eq_2)

lemma demo_voted_facts:
  "pollCount demo_voted = 1"
  "options (polls demo_voted 0) = [''A'', ''B'']"
  "startTime (polls demo_voted 0) = 0"
  "endTime (polls demo_voted 0) = 1000"
  "creator (polls demo_voted 0) = alice"
  "\<not> finalized (polls demo_voted 0)"
  "\<not> decryptionPending (polls demo_voted 0)"
  "totalVoters (polls demo_voted 0) = 1"
  "length (encryptedCounts (polls demo_voted 0)) = 2"
  "map decrypt (encryptedCounts (polls demo_voted 0)) = [1, 0]"
  "decryptedCounts (polls demo_voted 0) = [0, 0]"
  "hasVoted demo_voted 0 a = (a = bob)"
  "counterRequest demo_voted = 0"
  by (auto simp add: demo_voted_eq voted_def demo_created_facts tx_env_def upt_2 decrypt_tally)

lemma demo_request:
  "requestFinalization (tx_env alice 30) demo_voted 0 =
     Inr (demo_voted\<lparr> counterRequest := 1,
            requestedHandles := (requestedHandles demo_voted)(0 := encryptedCounts (polls demo_voted 0)),
            polls := (polls demo_voted)(0 := (polls demo_voted 0)\<lparr> decryptionPending := True,
                                                   requestId := 0 \<rparr>),
            requestToPoll := (requestToPoll demo_voted)(0 := 0) \<rparr>)"
proof -
  have "list_all (\<lambda>c. isAllowed (permissions demo_voted) c (this_address (tx_env alice 30)))
      (encryptedCounts (polls demo_voted 0))"
    using voted_allows_this[of "tx_env bob 20" demo_created 0 "Imported 11 0"]
    by (simp add: demo_voted_eq tx_env_def)
  then show ?thesis
    using requestFinalization_accept[of 0 demo_voted "tx_env alice 30"]
    by (simp add: requested_def demo_voted_facts)
qed

lemma demo_pending_eq:
  "demo_pending = demo_voted\<lparr> counterRequest := 1,
            requestedHandles := (requestedHandles demo_voted)(0 := encryptedCounts (polls demo_voted 0)),
            polls := (polls demo_voted)(0 := (polls demo_voted 0)\<lparr> decryptionPending := True,
                                                   requestId := 0 \<rparr>),
            requestToPoll := (requestToPoll demo_voted)(0 := 0) \<rparr>"
  by (simp add: demo_pending_def execute_def demo_request)

lemma demo_pending_facts:
  "pollCount demo_pending = 1"
  "options (polls demo_pending 0) = [''A'', ''B'']"
  "startTime (polls demo_pending 0) = 0"
  "endTime (polls demo_pending 0) = 1000"
  "creator (polls demo_pending 0) = alice"
  "\<not> finalized (polls demo_pending 0)"
  "decryptionPending (polls demo_pending 0)"
  "requestId (polls demo_pending 0) = 0"
  "requestToPoll demo_pending 0 = 0"
  "totalVoters (polls demo_pending 0) = 1"
  "length (encryptedCounts (polls demo_pending 0)) = 2"
  "map decrypt (encryptedCounts (polls demo_pending 0)) = [1, 0]"
  "decryptedCounts (polls demo_pending 0) = [0, 0]"
  "hasVoted demo_pending 0 a = (a = bob)"
  "oracle_reply demo_pending 0 = [1, 0]"
  by (simp_all add: demo_pending_eq demo_voted_facts oracle_reply_def)

lemma bob_neq_carol: "carol \<noteq> bob" "bob \<noteq> carol"
  by (simp_all add: carol_def bob_def)

lemma demo_vote_carol:
  "vote (tx_env carol 40) demo_pending 0 (sealed 12 1) [0x5A]
     = Inr (voted (tx_env carol 40) demo_pending 0 (Imported 12 1))"
  using vote_accept[OF reachable_storage_inv[OF reachable_demo_pending],
          of 0 "tx_env carol 40" "sealed 12 1" "[0x5A]"]
  by (simp add: demo_pending_facts tx_env_def sealed_def verifyInputProof_def bob_neq_carol)

lemma demo_late_eq: "demo_late = voted (tx_env carol 40) demo_pending 0 (Imported 12 1)"
  by (simp add: demo_late_def execute_def demo_vote_carol)

lemma demo_late_facts:
  "pollCount demo_late = 1"
  "options (polls demo_late 0) = [''A'', ''B'']"
  "\<not> finalized (polls demo_late 0)"
  "decryptionPending (polls demo_late 0)"
  "requestId (polls demo_late 0) = 0"
  "requestToPoll demo_late 0 = 0"
  "totalVoters (polls demo_late 0) = 2"
  "length (encryptedCounts (polls demo_late 0)) = 2"
  "map decrypt (encryptedCounts (polls demo_late 0)) = [1, 1]"
  "decryptedCounts (polls demo_late 0) = [0, 0]"
  "hasVoted demo_late 0 a = (a = bob \<or> a = carol)"
  "oracle_reply demo_late 0 = [1, 0]"
proof -
  have l: "length (encryptedCounts (polls demo_pending 0)) = 2"
    by (rule demo_pending_facts)
  have m: "map decrypt (encryptedCounts (polls demo_pending 0)) = [1, 0]"
    by (rule demo_pending_facts)
  obtain c0 c1 where c: "encryptedCounts (polls demo_pending 0) = [c0, c1]"
    using l by (auto simp: length_Suc_conv numeral_2_eq_2)
  have d: "decrypt c0 = 1" "decrypt c1 = 0" using m c by simp_all
  show "pollCount demo_late = 1" "options (polls demo_late 0) = [''A'', ''B'']"
    "\<not> finalized (polls demo_late 0)" "decryptionPending (polls demo_late 0)"
    "requestId (polls demo_late 0) = 0" "requestToPoll demo_late 0 = 0"
    "totalVoters (polls demo_late 0) = 2"
    "decryptedCounts (polls demo_late 0) = [0, 0]"
    "length (encryptedCounts (polls demo_late 0)) = 2"
    by (simp_all add: demo_late_eq voted_def demo_pending_facts)
  show "map decrypt (encryptedCounts (polls demo_late 0)) = [1, 1]"
    by (simp add: demo_late_eq voted_def demo_pending_facts upt_2 decrypt_tally c d)
  show "hasVoted demo_late 0 a = (a = bob \<or> a = carol)"
    by (auto simp add: demo_late_eq voted_def demo_pending_facts tx_env_def)
  show "oracle_reply demo_late 0 = [1, 0]"
    using demo_pending_facts(15)
    by (simp add: demo_late_eq voted_def oracle_reply_def)
qed

lemma demo_callback:
  "decryptionCallback (tx_env authority 50) demo_late 0 (Some (oracle_reply demo_late 0)) []
     = Inr (True, demo_late\<lparr> polls := (polls demo_late)(0 := (polls demo_late 0)\<lparr>
         decryptedCounts := [1, 0], finalized := True, decryptionPending := False \<rparr>) \<rparr>)"
  by (simp add: decryptionCallback_def Let_def demo_late_facts store_results_all)

lemma demo_final_eq:
  "demo_final = demo_late\<lparr> polls := (polls demo_late)(0 := (polls demo_late 0)\<lparr>
         decryptedCounts := [1, 0], finalized := True, decryptionPending := False \<rparr>) \<rparr>"
  by (simp add: demo_final_def execute_def demo_callback)

lemma demo_final_facts:
  "pollCount demo_final = 1"
  "options (polls demo_final 0) = [''A'', ''B'']"
  "finalized (polls demo_final 0)"
  "\<not> decryptionPending (polls demo_final 0)"
  "requestId (polls demo_final 0) = 0"
  "requestToPoll demo_final 0 = 0"
  "totalVoters (polls demo_final 0) = 2"
  "decryptedCounts (polls demo_final 0) = [1, 0]"
  by (simp_all add: demo_final_eq demo_late_facts)

lemma demo_forge:
  "decryptionCallback (tx_env mallory 35) demo_pending 0 (Some [0, 99]) []
     = Inr (True, demo_pending\<lparr> polls := (polls demo_pending)(0 := (polls demo_pending 0)\<lparr>
         decryptedCounts := [0, 99], finalized := True, decryptionPending := False \<rparr>) \<rparr>)"
  by (simp add: decryptionCallback_def Let_def demo_pending_facts store_results_all)

lemma demo_forged_eq:
  "demo_forged = demo_pending\<lparr> polls := (polls demo_pending)(0 := (polls demo_pending 0)\<lparr>
         decryptedCounts := [0, 99], finalized := True, decryptionPending := False \<rparr>) \<rparr>"
  by (simp add: demo_forged_def execute_def demo_forge)

subsection \<open>Steps of the contract\<close>

lemma execute_cases [case_names Reverted Created Voted Requested Finalized]:
  obtains
    "execute s tx = s"
  | e t os st en pid where "tx = (e, CreatePoll t os st en)"
      "createPoll e s t os st en = Inr (pid, execute s tx)"
  | e p c pr where "tx = (e, Vote p c pr)" "vote e s p c pr = Inr (execute s tx)"
  | e p where "tx = (e, RequestFinalization p)"
      "requestFinalization e s p = Inr (execute s tx)"
  | e r cs sigs b where "tx = (e, DecryptionCallback r cs sigs)"
      "decryptionCallback e s r cs sigs = Inr (b, execute s tx)"
proof (cases tx)
  case (Pair e c)
  show ?thesis
  proof (cases c)
    case (CreatePoll t os st en)
    with Pair that(1,2) show ?thesis
      by (cases "createPoll e s t os st en") (auto simp: execute_def)
  next
    case (Vote p ct pr)
    with Pair that(1,3) show ?thesis
      by (cases "vote e s p ct pr") (auto simp: execute_def)
  next
    case (RequestFinalization p)
    with Pair that(1,4) show ?thesis
      by (cases "requestFinalization e s p") (auto simp: execute_def)
  next
    case (DecryptionCallback r cs sigs)
    with Pair that(1,5) show ?thesis
      by (cases "decryptionCallback e s r cs sigs") (auto simp: execute_def)
  qed
qed

lemma execute_mono:
  assumes "storage_inv s"
  shows "pollCount s \<le> pollCount (execute s tx) \<and>
        (hasVoted s p a \<longrightarrow> hasVoted (execute s tx) p a) \<and>
        permissions s \<subseteq> permissions (execute s tx)"
proof (cases rule: execute_cases[of s tx])
  case Reverted
  then show ?thesis by simp
next
  case (Created e t os st en pid)
  from createPoll_InrD[OF Created(2)] show ?thesis
    by (elim conjE) (simp only:, simp)
next
  case (Voted e q c pr)
  from vote_InrD[OF Voted(2) assms] show ?thesis
    by (elim conjE) (simp only:, simp add: voted_def)
next
  case (Requested e q)
  from requestFinalization_InrD[OF Requested(2)] show ?thesis
    by (elim conjE) (simp only:, simp)
next
  case (Finalized e r cs sigs b)
  from decryptionCallback_InrD[OF Finalized(2) assms] show ?thesis
    by (elim conjE exE) (simp only:, simp)
qed

lemma storage_inv_run: "storage_inv s \<Longrightarrow> storage_inv (run s txs)"
  unfolding run_def
  by (induction txs arbitrary: s) (auto intro: storage_inv_execute)

lemma run_mono:
  assumes "storage_inv s"
  shows "pollCount s \<le> pollCount (run s txs) \<and>
        (hasVoted s p a \<longrightarrow> hasVoted (run s txs) p a) \<and>
        permissions s \<subseteq> permissions (run s txs)"
  using assms
proof (induction txs arbitrary: s)
  case Nil
  then show ?case by (simp add: run_def)
next
  case (Cons tx txs)
  have i: "storage_inv (execute s tx)" by (rule storage_inv_execute[OF Cons.prems])
  have r: "run s (tx # txs) = run (execute s tx) txs" by (simp add: run_def)
  from Cons.IH[OF i] execute_mono[OF Cons.prems, of tx p a] show ?case
    unfolding r by (meson order_trans subset_trans)
qed

lemma vote_again_fails:
  assumes "hasVoted s p (msg_sender e)"
  shows "isl (vote e s p c pr)"
    and "p < pollCount s \<Longrightarrow> unat (startTime (polls s p)) \<le> block_timestamp e \<Longrightarrow>
         block_timestamp e \<le> unat (endTime (polls s p)) \<Longrightarrow> \<not> finalized (polls s p) \<Longrightarrow>
         vote e s p c pr = Inl (Revert ''Already voted'')"
  using assms by (auto simp: vote_def Let_def)

lemma word_eq_of_nat_iff:
  fixes w :: uint32
  assumes "i < 2 ^ 32"
  shows "(w = of_nat i) \<longleftrightarrow> (unat w = i)"
proof
  assume "w = of_nat i"
  then show "unat w = i" using assms by (simp add: unat_of_nat)
next
  assume "unat w = i"
  then have "of_nat i = (of_nat (unat w) :: uint32)" by simp
  then show "w = of_nat i" by simp
qed

lemma voted_fields:
  "polls (voted e s p v) p = (polls s p)\<lparr> encryptedCounts :=
       map (\<lambda>j. tally v j (encryptedCounts (polls s p) ! j)) [0..<length (options (polls s p))],
     totalVoters := totalVoters (polls s p) + 1 \<rparr>"
  "hasVoted (voted e s p v) p (msg_sender e)"
  "pollCount (voted e s p v) = pollCount s"
  by (simp_all add: voted_def)

lemma demo_vote_spoiled:
  "vote (tx_env carol 25) demo_created 0 (sealed 13 7) [0x5A] = Inr demo_spoiled"
proof -
  have "vote (tx_env carol 25) demo_created 0 (sealed 13 7) [0x5A]
     = Inr (voted (tx_env carol 25) demo_created 0 (Imported 13 7))"
    using vote_accept[OF reachable_storage_inv[OF reachable_demo_created],
          of 0 "tx_env carol 25" "sealed 13 7" "[0x5A]"]
    by (simp add: demo_created_facts tx_env_def sealed_def verifyInputProof_def)
  then show ?thesis by (simp add: demo_spoiled_def execute_def)
qed

lemma demo_vote_bob_voted: "vote (tx_env bob 20) demo_created 0 (sealed 11 0) [0x5A] = Inr demo_voted"
  by (simp only: demo_vote_bob demo_voted_eq)

subsection \<open>Lifecycle steps\<close>

lemma lifecycle_simps:
  "lifecycleState P = Finalized \<longleftrightarrow> finalized P"
  "lifecycleState P = DecryptionPending \<longleftrightarrow> \<not> finalized P \<and> decryptionPending P"
  "lifecycleState P = Open \<longleftrightarrow> \<not> finalized P \<and> \<not> decryptionPending P"
  by (simp_all add: lifecycleState_def)

lemma execute_lifecycle:
  assumes "storage_inv s" and "p < pollCount s"
  shows "(lifecycleState (polls (execute s tx) p) = lifecycleState (polls s p) \<or>
      lifecycleState (polls s p) = Open \<and>
        lifecycleState (polls (execute s tx) p) = DecryptionPending \<or>
      lifecycleState (polls s p) = DecryptionPending \<and>
        lifecycleState (polls (execute s tx) p) = Finalized) \<and>
     (finalized (polls s p) \<longrightarrow> polls (execute s tx) p = polls s p)"
proof -
  have np: "\<not> (finalized (polls s p) \<and> decryptionPending (polls s p))"
    using assms by (simp add: storage_inv_def)
  show ?thesis
  proof (cases rule: execute_cases[of s tx])
    case Reverted
    then show ?thesis by simp
  next
    case (Created e t os st en pid)
    from createPoll_InrD[OF Created(2)] assms(2) show ?thesis
      by (elim conjE) (simp only:, simp)
  next
    case (Voted e q c pr)
    from vote_InrD[OF Voted(2) assms(1)] show ?thesis
      by (elim conjE) (simp only:, auto simp: voted_def lifecycleState_def)
  next
    case (Requested e q)
    from requestFinalization_InrD[OF Requested(2)] show ?thesis
      by (elim conjE) (simp only:, auto simp: lifecycleState_def)
  next
    case (Finalized e r cs sigs b)
    from decryptionCallback_InrD[OF Finalized(2) assms(1)] np show ?thesis
      by (elim conjE exE) (simp only:, auto simp: lifecycleState_def)
  qed
qed

lemma run_lifecycle:
  assumes "storage_inv s" and "p < pollCount s"
  shows "stage (lifecycleState (polls s p)) \<le> stage (lifecycleState (polls (run s txs) p)) \<and>
     (finalized (polls s p) \<longrightarrow> polls (run s txs) p = polls s p)"
  using assms
proof (induction txs arbitrary: s)
  case Nil
  then show ?case by (simp add: run_def)
next
  case (Cons tx txs)
  have i: "storage_inv (execute s tx)" by (rule storage_inv_execute[OF Cons.prems(1)])
  have pc: "p < pollCount (execute s tx)"
    using execute_mono[OF Cons.prems(1), of tx p undefined] Cons.prems(2) by simp
  have r: "run s (tx # txs) = run (execute s tx) txs" by (simp add: run_def)
  from execute_lifecycle[OF Cons.prems, of tx]
  have st: "stage (lifecycleState (polls s p)) \<le> stage (lifecycleState (polls (execute s tx) p))"
    and fz: "finalized (polls s p) \<longrightarrow> polls (execute s tx) p = polls s p"
    by auto
  from Cons.IH[OF i pc] st fz show ?case
    unfolding r by auto
qed

lemma callback_on_finalized:
  assumes "storage_inv s" and "p < pollCount s" and "finalized (polls s p)"
    and "requestToPoll s r = p"
  shows "decryptionCallback e s r cs sigs = Inl (Revert ''No pending decryption'')"
  using assms by (auto simp: decryptionCallback_def Let_def storage_inv_def)

subsection \<open>Tallies of a list of ballots\<close>


















subsection \<open>The run with \<open>2 ^ 32\<close> voters\<close>









subsection \<open>The creator's permission\<close>

lemma creator_inv_init: "creator_inv init_state"
  by (simp add: creator_inv_def init_state_def)

lemma creator_inv_voted:
  assumes "creator_inv s" and "p < pollCount s"
  shows "creator_inv (voted e s p v)"
proof -
  have "(c, creator (polls (voted e s p v) q)) \<in> permissions (voted e s p v)"
    if q: "q < pollCount s" "0 < totalVoters (polls (voted e s p v) q)"
      and c: "c \<in> set (encryptedCounts (polls (voted e s p v) q))" for q c
  proof (cases "q = p")
    case True
    from c obtain j where j: "j < length (options (polls s p))"
      and cj: "c = tally v j (encryptedCounts (polls s p) ! j)"
      unfolding True by (auto simp: voted_def)
    have "(c, creator (polls s p)) \<in> grants e (creator (polls s p)) c"
      by (simp add: grants_def)
    then have "(c, creator (polls s p)) \<in> permissions (voted e s p v)"
      using j cj by (auto simp: voted_def)
    then show ?thesis unfolding True by (simp add: voted_def)
  next
    case False
    then have "(c, creator (polls s q)) \<in> permissions s"
      using assms(1) q c by (auto simp: creator_inv_def voted_def)
    then show ?thesis using False by (simp add: voted_def)
  qed
  then show ?thesis by (simp add: creator_inv_def voted_fields)
qed

lemma creator_inv_execute:
  assumes "storage_inv s" and "creator_inv s"
  shows "creator_inv (execute s tx)"
proof (cases rule: execute_cases[of s tx])
  case Reverted
  then show ?thesis using assms(2) by simp
next
  case (Created e t os st en pid)
  from createPoll_InrD[OF Created(2)] assms(2) show ?thesis
    by (elim conjE) (simp only:, auto simp: creator_inv_def less_Suc_eq)
next
  case (Voted e q c pr)
  from vote_InrD[OF Voted(2) assms(1)] creator_inv_voted[OF assms(2)] show ?thesis
    by (elim conjE) (simp only:)
next
  case (Requested e q)
  from requestFinalization_InrD[OF Requested(2)] assms(2) show ?thesis
    by (elim conjE) (simp only:, auto simp: creator_inv_def)
next
  case (Finalized e r cs sigs b)
  from decryptionCallback_InrD[OF Finalized(2) assms(1)] assms(2) show ?thesis
    by (elim conjE exE) (simp only:, auto simp: creator_inv_def)
qed

lemma reachable_creator_inv: "reachable s \<Longrightarrow> creator_inv s"
  by (induction rule: reachable.induct)
     (auto simp: creator_inv_init intro: creator_inv_execute reachable_storage_inv)

lemma execute_static:
  assumes "storage_inv s" and "p < pollCount s"
  shows "creator (polls (execute s tx) p) = creator (polls s p) \<and>
     options (polls (execute s tx) p) = options (polls s p) \<and>
     totalVoters (polls s p) \<le> totalVoters (polls (execute s tx) p)"
proof (cases rule: execute_cases[of s tx])
  case Reverted
  then show ?thesis by simp
next
  case (Created e t os st en pid)
  from createPoll_InrD[OF Created(2)] assms(2) show ?thesis
    by (elim conjE) (simp only:, simp)
next
  case (Voted e q c pr)
  from vote_InrD[OF Voted(2) assms(1)] show ?thesis
    by (elim conjE) (simp only:, simp add: voted_def)
next
  case (Requested e q)
  from requestFinalization_InrD[OF Requested(2)] show ?thesis
    by (elim conjE) (simp only:, simp)
next
  case (Finalized e r cs sigs b)
  from decryptionCallback_InrD[OF Finalized(2) assms(1)] show ?thesis
    by (elim conjE exE) (simp only:, simp)
qed

lemma run_static:
  assumes "storage_inv s" and "p < pollCount s"
  shows "creator (polls (run s txs) p) = creator (polls s p) \<and>
     options (polls (run s txs) p) = options (polls s p) \<and>
     totalVoters (polls s p) \<le> totalVoters (polls (run s txs) p)"
  using assms
proof (induction txs arbitrary: s)
  case Nil
  then show ?case by (simp add: run_def)
next
  case (Cons tx txs)
  have i: "storage_inv (execute s tx)" by (rule storage_inv_execute[OF Cons.prems(1)])
  have pc: "p < pollCount (execute s tx)"
    using execute_mono[OF Cons.prems(1), of tx p undefined] Cons.prems(2) by simp
  have r: "run s (tx # txs) = run (execute s tx) txs" by (simp add: run_def)
  from Cons.IH[OF i pc] execute_static[OF Cons.prems, of tx] show ?case
    unfolding r by simp
qed

lemma execute_window:
  assumes "storage_inv s" and "p < pollCount s"
  shows "startTime (polls (execute s tx) p) = startTime (polls s p) \<and>
     endTime (polls (execute s tx) p) = endTime (polls s p)"
proof (cases rule: execute_cases[of s tx])
  case Reverted
  then show ?thesis by simp
next
  case (Created e t os st en pid)
  from createPoll_InrD[OF Created(2)] assms(2) show ?thesis
    by (elim conjE) (simp only:, simp)
next
  case (Voted e q c pr)
  from vote_InrD[OF Voted(2) assms(1)] show ?thesis
    by (elim conjE) (simp only:, simp add: voted_def)
next
  case (Requested e q)
  from requestFinalization_InrD[OF Requested(2)] show ?thesis
    by (elim conjE) (simp only:, simp)
next
  case (Finalized e r cs sigs b)
  from decryptionCallback_InrD[OF Finalized(2) assms(1)] show ?thesis
    by (elim conjE exE) (simp only:, simp)
qed

lemma run_window:
  assumes "storage_inv s" and "p < pollCount s"
  shows "startTime (polls (run s txs) p) = startTime (polls s p) \<and>
     endTime (polls (run s txs) p) = endTime (polls s p)"
  using assms
proof (induction txs arbitrary: s)
  case Nil
  then show ?case by (simp add: run_def)
next
  case (Cons tx txs)
  have i: "storage_inv (execute s tx)" by (rule storage_inv_execute[OF Cons.prems(1)])
  have pc: "p < pollCount (execute s tx)"
    using execute_mono[OF Cons.prems(1), of tx p undefined] Cons.prems(2) by simp
  have r: "run s (tx # txs) = run (execute s tx) txs" by (simp add: run_def)
  from Cons.IH[OF i pc] execute_window[OF Cons.prems, of tx] show ?case
    unfolding r by simp
qed

lemma vote_again_error:
  assumes "hasVoted s p (msg_sender e)" and "p < pollCount s"
  shows "vote e s p c pr =
     (if block_timestamp e < unat (startTime (polls s p))
        then Inl (Revert ''Voting has not started'')
      else if unat (endTime (polls s p)) < block_timestamp e
        then Inl (Revert ''Voting has ended'')
      else if finalized (polls s p) then Inl (Revert ''Poll is finalized'')
      else Inl (Revert ''Already voted''))"
  using assms by (auto simp: vote_def Let_def)

lemma demo_final_voters:
  "startTime (polls demo_final 0) = 0" "endTime (polls demo_final 0) = 1000"
  "hasVoted demo_final 0 bob"
  by (simp_all add: demo_final_eq demo_late_eq voted_def demo_pending_facts)

lemma demo_run_final:
  "run demo_voted [(tx_env alice 30, RequestFinalization 0),
      (tx_env carol 40, Vote 0 (sealed 12 1) [0x5A]),
      (tx_env authority 50, DecryptionCallback 0 (Some (oracle_reply demo_late 0)) [])]
     = demo_final"
proof -
  have "run demo_voted [(tx_env alice 30, RequestFinalization 0),
      (tx_env carol 40, Vote 0 (sealed 12 1) [0x5A]),
      (tx_env authority 50, DecryptionCallback 0 (Some (oracle_reply demo_late 0)) [])]
     = execute (execute (execute demo_voted (tx_env alice 30, RequestFinalization 0))
          (tx_env carol 40, Vote 0 (sealed 12 1) [0x5A]))
          (tx_env authority 50, DecryptionCallback 0 (Some (oracle_reply demo_late 0)) [])"
    by (simp add: run_def)
  then show ?thesis
    by (simp only: demo_pending_def[symmetric] demo_late_def[symmetric] demo_final_def[symmetric])
qed

lemma demo_vote_carol_early:
  "vote (tx_env carol 25) demo_voted 0 (sealed 12 1) [0x5A]
     = Inr (voted (tx_env carol 25) demo_voted 0 (Imported 12 1))"
  using vote_accept[OF reachable_storage_inv[OF reachable_demo_voted],
          of 0 "tx_env carol 25" "sealed 12 1" "[0x5A]"]
  by (simp add: demo_voted_facts tx_env_def sealed_def verifyInputProof_def bob_neq_carol)

lemma demo_two_eq: "demo_two = voted (tx_env carol 25) demo_voted 0 (Imported 12 1)"
  by (simp add: demo_two_def execute_def demo_vote_carol_early)

section \<open>The claims\<close>

subsection \<open>C1: authenticity of the decryption callback\<close>

text \<open>
  Claim C1 says that \<open>decryptionCallback\<close> verifies the signatures against the decryption
  authority's verification material, accepts the call only from that authority, and that
  a call with invalid or missing signatures fails and commits nothing. The source comments
  the call \<open>FHE.checkSignatures(requestId, signatures)\<close> out and declares the function
  \<open>public\<close> without a test of the sender. The theorem evaluates the code: the outcome of
  the callback does not depend on the sender or on the signatures; and in the concrete
  run, where the requested ciphertexts decrypt to \<open>[1, 0]\<close>, the account \<open>mallory\<close> calls
  the callback with no signature and the cleartexts \<open>[0, 99]\<close>, the call succeeds, and
  \<open>getResults\<close> returns \<open>[0, 99]\<close>.
\<close>

theorem decryptionCallback_unverified:
  "decryptionCallback e s r cs sigs = decryptionCallback e' s r cs [] \<and>
   oracle_reply demo_pending 0 = [1, 0] \<and>
   decryptionCallback (tx_env mallory 35) demo_pending 0 (Some [0, 99]) [] = Inr (True, demo_forged) \<and>
   getResults demo_forged 0 = Inr [0, 99]"
proof -
  have "decryptionCallback e s r cs sigs = decryptionCallback e' s r cs []"
    by (simp add: decryptionCallback_def)
  moreover have "oracle_reply demo_pending 0 = [1, 0]"
    by (rule demo_pending_facts)
  moreover have "decryptionCallback (tx_env mallory 35) demo_pending 0 (Some [0, 99]) []
      = Inr (True, demo_forged)"
    by (simp only: demo_forge demo_forged_eq)
  moreover have "getResults demo_forged 0 = Inr [0, 99]"
    by (simp add: demo_forged_eq getResults_def demo_pending_facts)
  ultimately show ?thesis by blast
qed

subsection \<open>C2: voting while a decryption is pending\<close>

text \<open>
  Claim C2 says that \<open>vote\<close> fails whenever the poll is not \<open>Open\<close>, in particular for
  every poll in \<open>DecryptionPending\<close>, leaving accumulators, \<open>hasVoted\<close> and \<open>totalVoters\<close>
  unchanged. The source guards \<open>vote\<close> with \<open>require(!poll.finalized)\<close> only. The theorem
  evaluates the code on the concrete run: poll 0 is in \<open>DecryptionPending\<close>, Carol's vote at
  time 40 is accepted, her \<open>hasVoted\<close> entry is set, \<open>totalVoters\<close> goes from 1 to 2 and the
  tallies behind the accumulators go from \<open>[1, 0]\<close> to \<open>[1, 1]\<close>.
\<close>

theorem vote_accepted_while_pending:
  "lifecycleState (polls demo_pending 0) = DecryptionPending \<and>
   vote (tx_env carol 40) demo_pending 0 (sealed 12 1) [0x5A] = Inr demo_late \<and>
   hasVoted demo_late 0 carol \<and> \<not> hasVoted demo_pending 0 carol \<and>
   totalVoters (polls demo_pending 0) = 1 \<and> totalVoters (polls demo_late 0) = 2 \<and>
   map decrypt (encryptedCounts (polls demo_pending 0)) = [1, 0] \<and>
   map decrypt (encryptedCounts (polls demo_late 0)) = [1, 1]"
proof -
  have "vote (tx_env carol 40) demo_pending 0 (sealed 12 1) [0x5A] = Inr demo_late"
    by (simp only: demo_vote_carol demo_late_eq)
  then show ?thesis
    by (simp add: lifecycleState_def demo_pending_facts demo_late_facts bob_neq_carol)
qed

subsection \<open>C6: validation in createPoll\<close>

text \<open>
  Claim C6: \<open>createPoll\<close> fails with ``Title cannot be empty'' (InvalidTitle) when the
  title is empty; otherwise with ``Must have 2-16 options'' (InvalidOptionCount) when the
  number of options is outside \<open>[2, 16]\<close>; otherwise with ``End time must be after start
  time'' or ``End time must be in the future'' (InvalidTimeRange) when
  \<open>endTime \<le> startTime\<close> or \<open>endTime\<close> is not after the block time. The checks run in
  this order. With between 2 and 16 options, and so with 2 and with 16, and valid title
  and times it succeeds, returns the old poll count as the new id and leaves the new poll
  \<open>Open\<close> (the counter \<open>_pollCount\<close> is a \<open>uint256\<close>, so it must be below its maximum).
  Whenever the call fails, the storage is unchanged and the poll count is the same.
\<close>

theorem createPoll_validation:
  "(titleArg = [] \<longrightarrow>
      createPoll e s titleArg os st en = Inl (Revert ''Title cannot be empty'')) \<and>
   (titleArg \<noteq> [] \<and> (length os < 2 \<or> 16 < length os) \<longrightarrow>
      createPoll e s titleArg os st en = Inl (Revert ''Must have 2-16 options'')) \<and>
   (titleArg \<noteq> [] \<and> 2 \<le> length os \<and> length os \<le> 16 \<and> en \<le> st \<longrightarrow>
      createPoll e s titleArg os st en = Inl (Revert ''End time must be after start time'')) \<and>
   (titleArg \<noteq> [] \<and> 2 \<le> length os \<and> length os \<le> 16 \<and> st < en \<and>
      unat en \<le> block_timestamp e \<longrightarrow>
      createPoll e s titleArg os st en = Inl (Revert ''End time must be in the future'')) \<and>
   (titleArg \<noteq> [] \<and> 2 \<le> length os \<and> length os \<le> 16 \<and> st < en \<and>
      block_timestamp e < unat en \<and> pollCount s < max_uint256 \<longrightarrow>
      (\<exists>s'. createPoll e s titleArg os st en = Inr (pollCount s, s') \<and>
            getPollCount s' = getPollCount s + 1 \<and>
            options (polls s' (pollCount s)) = os \<and>
            lifecycleState (polls s' (pollCount s)) = Open)) \<and>
   (\<forall>err. createPoll e s titleArg os st en = Inl err \<longrightarrow>
      execute s (e, CreatePoll titleArg os st en) = s \<and>
      getPollCount (execute s (e, CreatePoll titleArg os st en)) = getPollCount s)"
  by (auto simp: createPoll_def Let_def execute_def getPollCount_def lifecycleState_def)

theorem createPoll_validation_witness:
  "createPoll (tx_env alice 10) init_state [] [''A'', ''B''] 0 1000
     = Inl (Revert ''Title cannot be empty'') \<and>
   createPoll (tx_env alice 10) init_state ''Q'' [''A''] 0 1000
     = Inl (Revert ''Must have 2-16 options'') \<and>
   createPoll (tx_env alice 10) init_state ''Q'' (replicate 17 ''A'') 0 1000
     = Inl (Revert ''Must have 2-16 options'') \<and>
   createPoll (tx_env alice 10) init_state ''Q'' [''A'', ''B''] 7 7
     = Inl (Revert ''End time must be after start time'') \<and>
   createPoll (tx_env alice 10) init_state ''Q'' [''A'', ''B''] 0 10
     = Inl (Revert ''End time must be in the future'') \<and>
   (\<exists>s'. createPoll (tx_env alice 10) init_state ''Q'' [''A'', ''B''] 0 1000 = Inr (0, s') \<and>
      getPollCount s' = 1 \<and> options (polls s' 0) = [''A'', ''B''] \<and>
      lifecycleState (polls s' 0) = Open) \<and>
   (\<exists>s'. createPoll (tx_env alice 10) init_state ''Q'' (replicate 16 ''A'') 0 1000 = Inr (0, s') \<and>
      getPollCount s' = 1 \<and> options (polls s' 0) = replicate 16 ''A'' \<and>
      lifecycleState (polls s' 0) = Open) \<and>
   execute init_state (tx_env alice 10, CreatePoll ''Q'' [''A''] 0 1000) = init_state"
proof -
  have e: "block_timestamp (tx_env alice 10) = 10" by (simp add: tx_env_def)
  have p: "pollCount init_state = 0" "getPollCount init_state = 0" "(0::nat) < max_uint256"
    by (simp_all add: init_state_def getPollCount_def max_uint256_def)
  have 1: "createPoll (tx_env alice 10) init_state [] [''A'', ''B''] 0 1000
     = Inl (Revert ''Title cannot be empty'')"
    using createPoll_validation[of "[]" "tx_env alice 10" init_state "[''A'', ''B'']" 0 1000]
    by simp
  have 2: "createPoll (tx_env alice 10) init_state ''Q'' [''A''] 0 1000
     = Inl (Revert ''Must have 2-16 options'')"
    using createPoll_validation[of "''Q''" "tx_env alice 10" init_state "[''A'']" 0 1000]
    by simp
  have 3: "createPoll (tx_env alice 10) init_state ''Q'' (replicate 17 ''A'') 0 1000
     = Inl (Revert ''Must have 2-16 options'')"
    using createPoll_validation[of "''Q''" "tx_env alice 10" init_state "replicate 17 ''A''" 0 1000]
    by simp
  have 4: "createPoll (tx_env alice 10) init_state ''Q'' [''A'', ''B''] 7 7
     = Inl (Revert ''End time must be after start time'')"
    using createPoll_validation[of "''Q''" "tx_env alice 10" init_state "[''A'', ''B'']" 7 7]
    by simp
  have 5: "createPoll (tx_env alice 10) init_state ''Q'' [''A'', ''B''] 0 10
     = Inl (Revert ''End time must be in the future'')"
    using createPoll_validation[of "''Q''" "tx_env alice 10" init_state "[''A'', ''B'']" 0 10] e
    by simp
  have 6: "\<exists>s'. createPoll (tx_env alice 10) init_state ''Q'' [''A'', ''B''] 0 1000 = Inr (0, s') \<and>
      getPollCount s' = 1 \<and> options (polls s' 0) = [''A'', ''B''] \<and>
      lifecycleState (polls s' 0) = Open"
    using createPoll_validation[of "''Q''" "tx_env alice 10" init_state "[''A'', ''B'']" 0 1000] e p
    by simp
  have 7: "\<exists>s'. createPoll (tx_env alice 10) init_state ''Q'' (replicate 16 ''A'') 0 1000 = Inr (0, s') \<and>
      getPollCount s' = 1 \<and> options (polls s' 0) = replicate 16 ''A'' \<and>
      lifecycleState (polls s' 0) = Open"
    using createPoll_validation[of "''Q''" "tx_env alice 10" init_state "replicate 16 ''A''" 0 1000] e p
    by simp
  have 8: "execute init_state (tx_env alice 10, CreatePoll ''Q'' [''A''] 0 1000) = init_state"
    using createPoll_validation[of "''Q''" "tx_env alice 10" init_state "[''A'']" 0 1000] 2
    by simp
  from 1 2 3 4 5 6 7 8 show ?thesis by blast
qed

subsection \<open>C7: requestFinalization\<close>

text \<open>
  The outcomes of \<open>requestFinalization\<close> in every state and at every block time: the three
  reverts of the source in their order, then the library's refusal when the contract is
  not allowed on one of the poll's counters, and success otherwise. The environment \<open>e\<close>,
  and with it the time, is arbitrary: no outcome depends on the voting window.
\<close>

lemma requestFinalization_cases:
  "(\<not> p < pollCount s \<longrightarrow>
      requestFinalization e s p = Inl (Revert ''Poll does not exist'')) \<and>
   (p < pollCount s \<and> lifecycleState (polls s p) = Finalized \<longrightarrow>
      requestFinalization e s p = Inl (Revert ''Poll already finalized'')) \<and>
   (p < pollCount s \<and> lifecycleState (polls s p) = DecryptionPending \<longrightarrow>
      requestFinalization e s p = Inl (Revert ''Decryption already pending'')) \<and>
   (p < pollCount s \<and> lifecycleState (polls s p) = Open \<and>
    \<not> list_all (\<lambda>c. isAllowed (permissions s) c (this_address e))
        (encryptedCounts (polls s p)) \<longrightarrow>
      requestFinalization e s p = Inl SenderNotAllowed) \<and>
   (p < pollCount s \<and> lifecycleState (polls s p) = Open \<and>
    list_all (\<lambda>c. isAllowed (permissions s) c (this_address e))
        (encryptedCounts (polls s p)) \<longrightarrow>
      (\<exists>s'. requestFinalization e s p = Inr s' \<and>
            lifecycleState (polls s' p) = DecryptionPending \<and>
            requestToPoll s' (requestId (polls s' p)) = p \<and>
            requestedHandles s' (requestId (polls s' p)) = encryptedCounts (polls s p)))"
  by (auto simp: requestFinalization_def Let_def lifecycleState_def FHE_requestDecryption_def
        map_FHE_toBytes32 split: if_splits)

text \<open>
  Claim C7 says that \<open>requestFinalization\<close> succeeds, at any time, on every existing poll
  that is neither \<open>Finalized\<close> nor \<open>DecryptionPending\<close>. On a poll that has received no vote
  the contract does not: \<open>createPoll\<close> allocates the array \<open>encryptedCounts\<close> and never
  writes a ciphertext to it, and only the loop of \<open>vote\<close> calls \<open>FHE.allowThis\<close> on the
  counters, so the decryption request of the contract is refused. Alice's poll is \<open>Open\<close>
  and has no vote; her request fails with \<open>SenderNotAllowed\<close> inside the voting window
  (time 30) and after its end (time 2000), and the transaction leaves the storage as it
  was. After Bob's vote the same request succeeds.
\<close>

theorem requestFinalization_without_votes:
  "0 < pollCount demo_created \<and>
   lifecycleState (polls demo_created 0) = Open \<and>
   getTotalVoters demo_created 0 = Inr 0 \<and>
   encryptedCounts (polls demo_created 0) = [Uninitialized, Uninitialized] \<and>
   unat (endTime (polls demo_created 0)) = 1000 \<and>
   requestFinalization (tx_env alice 30) demo_created 0 = Inl SenderNotAllowed \<and>
   requestFinalization (tx_env alice 2000) demo_created 0 = Inl SenderNotAllowed \<and>
   execute demo_created (tx_env alice 2000, RequestFinalization 0) = demo_created \<and>
   requestFinalization (tx_env alice 30) demo_voted 0 = Inr demo_pending"
proof -
  have 1: "0 < pollCount demo_created" "lifecycleState (polls demo_created 0) = Open"
    "getTotalVoters demo_created 0 = Inr 0"
    "encryptedCounts (polls demo_created 0) = [Uninitialized, Uninitialized]"
    "unat (endTime (polls demo_created 0)) = 1000"
    by (simp_all add: demo_created_facts lifecycleState_def getTotalVoters_def)
  have 2: "requestFinalization (tx_env alice t) demo_created 0 = Inl SenderNotAllowed" for t
    using requestFinalization_refuse[of 0 demo_created "tx_env alice t"]
    by (simp add: demo_created_facts isAllowed_def)
  have 3: "execute demo_created (tx_env alice 2000, RequestFinalization 0) = demo_created"
    by (simp add: execute_def 2)
  have 4: "requestFinalization (tx_env alice 30) demo_voted 0 = Inr demo_pending"
    by (simp only: demo_request demo_pending_eq)
  from 1 2 3 4 show ?thesis by blast
qed

subsection \<open>C4: the homomorphic fan-out of a vote\<close>

text \<open>
  Claim C4: on every accepted vote, for every option index \<open>i\<close> below the number of
  options, the accumulator \<open>i\<close> becomes the homomorphic sum of its old value and
  \<open>select(voteIndex == i, 1, 0)\<close>, so the tally behind it grows by 1 when the encrypted
  choice is \<open>i\<close> and by 0 otherwise. Consequently a choice that is not below the number of
  options leaves every tally as it was, while \<open>totalVoters\<close> still grows by 1 and the
  sender, who had not voted, is marked in \<open>hasVoted\<close>; the vote is consumed: every further
  vote of that sender on the poll fails.
\<close>

theorem vote_fan_out:
  assumes "reachable s" and "vote e s p c pr = Inr s'"
  shows "\<exists>v. FHE_fromExternal c pr = Some v \<and> decrypt v = ext_value c \<and>
     length (encryptedCounts (polls s' p)) = length (options (polls s p)) \<and>
     (\<forall>i<length (options (polls s p)).
        encryptedCounts (polls s' p) ! i =
          FHE_add (encryptedCounts (polls s p) ! i)
            (FHE_select (FHE_eq v (FHE_asEuint32 (of_nat i)))
               (FHE_asEuint32 1) (FHE_asEuint32 0)) \<and>
        decrypt (encryptedCounts (polls s' p) ! i) =
          decrypt (encryptedCounts (polls s p) ! i) + (if unat (ext_value c) = i then 1 else 0)) \<and>
     (length (options (polls s p)) \<le> unat (ext_value c) \<longrightarrow>
        map decrypt (encryptedCounts (polls s' p)) = map decrypt (encryptedCounts (polls s p))) \<and>
     totalVoters (polls s' p) = totalVoters (polls s p) + 1 \<and>
     \<not> hasVoted s p (msg_sender e) \<and> hasVoted s' p (msg_sender e) \<and>
     (\<forall>e2 c2 pr2. msg_sender e2 = msg_sender e \<longrightarrow> isl (vote e2 s' p c2 pr2))"
proof -
  let ?v = "Imported (ext_handle c) (ext_value c)"
  let ?n = "length (options (polls s p))"
  have inv: "storage_inv s" by (rule reachable_storage_inv[OF assms(1)])
  from vote_InrD[OF assms(2) inv]
  have p: "p < pollCount s" and nv: "\<not> hasVoted s p (msg_sender e)"
    and ok: "verifyInputProof c pr" and s': "s' = voted e s p ?v"
    by blast+
  have len: "length (encryptedCounts (polls s p)) = ?n" and n16: "?n \<le> 16"
    using inv p by (auto simp: storage_inv_def)
  have fe: "FHE_fromExternal c pr = Some ?v"
    using ok by (simp add: FHE_fromExternal_def)
  have ec: "encryptedCounts (polls s' p) =
      map (\<lambda>j. tally ?v j (encryptedCounts (polls s p) ! j)) [0..<?n]"
    by (simp add: s' voted_fields)
  have eqi: "(ext_value c = of_nat i) \<longleftrightarrow> (unat (ext_value c) = i)" if "i < ?n" for i
    using that n16 by (intro word_eq_of_nat_iff) simp
  have step: "encryptedCounts (polls s' p) ! i =
          FHE_add (encryptedCounts (polls s p) ! i)
            (FHE_select (FHE_eq ?v (FHE_asEuint32 (of_nat i)))
               (FHE_asEuint32 1) (FHE_asEuint32 0)) \<and>
        decrypt (encryptedCounts (polls s' p) ! i) =
          decrypt (encryptedCounts (polls s p) ! i) + (if unat (ext_value c) = i then 1 else 0)"
    if "i < ?n" for i
  proof -
    have "encryptedCounts (polls s' p) ! i = tally ?v i (encryptedCounts (polls s p) ! i)"
      using that by (simp add: ec)
    then show ?thesis
      using eqi[OF that] by (simp add: decrypt_tally) (simp add: tally_def)
  qed
  have l': "length (encryptedCounts (polls s' p)) = ?n" by (simp add: ec)
  have out: "map decrypt (encryptedCounts (polls s' p)) = map decrypt (encryptedCounts (polls s p))"
    if "?n \<le> unat (ext_value c)"
  proof (rule nth_equalityI)
    show "length (map decrypt (encryptedCounts (polls s' p))) =
          length (map decrypt (encryptedCounts (polls s p)))"
      by (simp add: l' len)
  next
    fix i assume "i < length (map decrypt (encryptedCounts (polls s' p)))"
    then have i: "i < ?n" by (simp add: l')
    with that have "unat (ext_value c) \<noteq> i" by simp
    with step[OF i, THEN conjunct2] have "decrypt (encryptedCounts (polls s' p) ! i) =
          decrypt (encryptedCounts (polls s p) ! i)"
      by simp
    with i show "map decrypt (encryptedCounts (polls s' p)) ! i =
          map decrypt (encryptedCounts (polls s p)) ! i"
      by (simp add: l' len)
  qed
  have tv: "totalVoters (polls s' p) = totalVoters (polls s p) + 1"
    by (simp add: s' voted_fields)
  have hv: "hasVoted s' p (msg_sender e)" by (simp add: s' voted_fields)
  have dv: "decrypt ?v = ext_value c" by simp
  have every: "\<forall>i<?n.
        encryptedCounts (polls s' p) ! i =
          FHE_add (encryptedCounts (polls s p) ! i)
            (FHE_select (FHE_eq ?v (FHE_asEuint32 (of_nat i)))
               (FHE_asEuint32 1) (FHE_asEuint32 0)) \<and>
        decrypt (encryptedCounts (polls s' p) ! i) =
          decrypt (encryptedCounts (polls s p) ! i) + (if unat (ext_value c) = i then 1 else 0)"
    using step by blast
  have used: "\<forall>e2 c2 pr2. msg_sender e2 = msg_sender e \<longrightarrow> isl (vote e2 s' p c2 pr2)"
    using vote_again_fails(1)[of s' p] hv by metis
  from fe dv l' every out tv nv hv used show ?thesis by blast
qed

theorem vote_fan_out_witness:
  "reachable demo_created \<and>
   vote (tx_env bob 20) demo_created 0 (sealed 11 0) [0x5A] = Inr demo_voted \<and>
   decrypt (encryptedCounts (polls demo_voted 0) ! 0) =
     decrypt (encryptedCounts (polls demo_created 0) ! 0) + 1 \<and>
   decrypt (encryptedCounts (polls demo_voted 0) ! 1) =
     decrypt (encryptedCounts (polls demo_created 0) ! 1) \<and>
   vote (tx_env carol 25) demo_created 0 (sealed 13 7) [0x5A] = Inr demo_spoiled \<and>
   length (options (polls demo_created 0)) \<le> unat (ext_value (sealed 13 7)) \<and>
   map decrypt (encryptedCounts (polls demo_spoiled 0)) =
     map decrypt (encryptedCounts (polls demo_created 0)) \<and>
   totalVoters (polls demo_spoiled 0) = totalVoters (polls demo_created 0) + 1 \<and>
   hasVoted demo_spoiled 0 carol \<and>
   isl (vote (tx_env carol 26) demo_spoiled 0 (sealed 15 0) [0x5A])"
proof -
  have a: "decrypt (encryptedCounts (polls demo_voted 0) ! 0) =
       decrypt (encryptedCounts (polls demo_created 0) ! 0) + 1 \<and>
     decrypt (encryptedCounts (polls demo_voted 0) ! 1) =
       decrypt (encryptedCounts (polls demo_created 0) ! 1)"
    using vote_fan_out[OF reachable_demo_created demo_vote_bob_voted]
    by (auto simp: demo_created_facts sealed_def)
  have r: "length (options (polls demo_created 0)) \<le> unat (ext_value (sealed 13 7))"
    by (simp add: demo_created_facts sealed_def)
  have b: "map decrypt (encryptedCounts (polls demo_spoiled 0)) =
       map decrypt (encryptedCounts (polls demo_created 0)) \<and>
     totalVoters (polls demo_spoiled 0) = totalVoters (polls demo_created 0) + 1 \<and>
     hasVoted demo_spoiled 0 carol \<and>
   isl (vote (tx_env carol 26) demo_spoiled 0 (sealed 15 0) [0x5A])"
    using vote_fan_out[OF reachable_demo_created demo_vote_spoiled] r
    by (auto simp: tx_env_def)
  from reachable_demo_created demo_vote_bob_voted a demo_vote_spoiled r b show ?thesis by blast
qed

subsection \<open>C5: one vote per voter\<close>

text \<open>
  Claim C5 says that any second vote from the same voter on the same poll fails with
  AlreadyVoted. In \<open>vote\<close> the check of \<open>hasVoted\<close> comes after the checks of the voting
  window and of \<open>finalized\<close>, and the first failing check decides the error. Bob has voted
  on Alice's poll, whose window ends at 1000. His second vote at time 2000 fails with
  ``Voting has ended'', and his second vote on the finalized poll, at time 60 inside the
  window, fails with ``Poll is finalized''; neither fails with ``Already voted''.
\<close>

theorem second_vote_counterexample:
  "vote (tx_env bob 20) demo_created 0 (sealed 11 0) [0x5A] = Inr demo_voted \<and>
   hasUserVoted demo_voted 0 bob = Inr True \<and>
   vote (tx_env bob 2000) demo_voted 0 (sealed 14 1) [0x5A] = Inl (Revert ''Voting has ended'') \<and>
   hasUserVoted demo_final 0 bob = Inr True \<and>
   vote (tx_env bob 60) demo_final 0 (sealed 14 1) [0x5A] = Inl (Revert ''Poll is finalized'')"
proof -
  have 1: "hasUserVoted demo_voted 0 bob = Inr True"
    by (simp add: hasUserVoted_def demo_voted_facts)
  have 2: "vote (tx_env bob 2000) demo_voted 0 (sealed 14 1) [0x5A]
      = Inl (Revert ''Voting has ended'')"
    by (simp add: vote_def Let_def demo_voted_facts tx_env_def)
  have 3: "hasUserVoted demo_final 0 bob = Inr True"
    by (simp add: hasUserVoted_def demo_final_facts demo_final_voters)
  have 4: "vote (tx_env bob 60) demo_final 0 (sealed 14 1) [0x5A]
      = Inl (Revert ''Poll is finalized'')"
    by (simp add: vote_def Let_def demo_final_facts demo_final_voters tx_env_def)
  from demo_vote_bob_voted 1 2 3 4 show ?thesis by blast
qed

text \<open>
  Claim C5 as amended: in every reachable state, for every existing poll that is inside its
  voting window and not finalized, and every sender who has not voted on it, a vote with a
  proof that verifies succeeds, raises \<open>getTotalVoters\<close> by exactly 1 and makes
  \<open>hasUserVoted\<close> true. After that, whatever transactions follow, \<open>hasUserVoted\<close> stays
  true and every further vote of the same sender on the same poll fails and leaves the
  storage, and so \<open>getTotalVoters\<close>, unchanged. The failure is that of the first check
  that fails: ``Voting has not started'' before the window, ``Voting has ended'' after it,
  ``Poll is finalized'' inside the window on a finalized poll, and ``Already voted''
  (AlreadyVoted) inside the window on a poll that is not finalized.
\<close>

theorem vote_once:
  assumes "reachable s" and "p < pollCount s"
    and "unat (startTime (polls s p)) \<le> block_timestamp e"
    and "block_timestamp e \<le> unat (endTime (polls s p))"
    and "\<not> finalized (polls s p)"
    and "\<not> hasVoted s p (msg_sender e)"
    and "verifyInputProof c pr"
  shows "\<exists>s'. vote e s p c pr = Inr s' \<and>
     getTotalVoters s p = Inr (totalVoters (polls s p)) \<and>
     getTotalVoters s' p = Inr (totalVoters (polls s p) + 1) \<and>
     hasUserVoted s p (msg_sender e) = Inr False \<and>
     hasUserVoted s' p (msg_sender e) = Inr True \<and>
     (\<forall>txs e2 c2 pr2. msg_sender e2 = msg_sender e \<longrightarrow>
        hasUserVoted (run s' txs) p (msg_sender e) = Inr True \<and>
        isl (vote e2 (run s' txs) p c2 pr2) \<and>
        vote e2 (run s' txs) p c2 pr2 =
          (if block_timestamp e2 < unat (startTime (polls s p))
             then Inl (Revert ''Voting has not started'')
           else if unat (endTime (polls s p)) < block_timestamp e2
             then Inl (Revert ''Voting has ended'')
           else if finalized (polls (run s' txs) p) then Inl (Revert ''Poll is finalized'')
           else Inl (Revert ''Already voted'')) \<and>
        execute (run s' txs) (e2, Vote p c2 pr2) = run s' txs \<and>
        getTotalVoters (execute (run s' txs) (e2, Vote p c2 pr2)) p
          = getTotalVoters (run s' txs) p)"
proof -
  let ?s' = "voted e s p (Imported (ext_handle c) (ext_value c))"
  have inv: "storage_inv s" by (rule reachable_storage_inv[OF assms(1)])
  have v: "vote e s p c pr = Inr ?s'"
    by (rule vote_accept[OF inv assms(2-7)])
  have inv': "storage_inv ?s'" by (rule storage_inv_vote[OF inv v])
  have p': "p < pollCount ?s'" using assms(2) by (simp add: voted_fields)
  have w': "startTime (polls ?s' p) = startTime (polls s p)"
      "endTime (polls ?s' p) = endTime (polls s p)"
    by (simp_all add: voted_fields)
  have g: "getTotalVoters s p = Inr (totalVoters (polls s p))"
      "getTotalVoters ?s' p = Inr (totalVoters (polls s p) + 1)"
      "hasUserVoted s p (msg_sender e) = Inr False"
      "hasUserVoted ?s' p (msg_sender e) = Inr True"
    using assms(2,6) by (simp_all add: getTotalVoters_def hasUserVoted_def voted_fields)
  have again: "hasUserVoted (run ?s' txs) p (msg_sender e) = Inr True \<and>
        isl (vote e2 (run ?s' txs) p c2 pr2) \<and>
        vote e2 (run ?s' txs) p c2 pr2 =
          (if block_timestamp e2 < unat (startTime (polls s p))
             then Inl (Revert ''Voting has not started'')
           else if unat (endTime (polls s p)) < block_timestamp e2
             then Inl (Revert ''Voting has ended'')
           else if finalized (polls (run ?s' txs) p) then Inl (Revert ''Poll is finalized'')
           else Inl (Revert ''Already voted'')) \<and>
        execute (run ?s' txs) (e2, Vote p c2 pr2) = run ?s' txs \<and>
        getTotalVoters (execute (run ?s' txs) (e2, Vote p c2 pr2)) p
          = getTotalVoters (run ?s' txs) p"
    if "msg_sender e2 = msg_sender e" for txs e2 c2 pr2
  proof -
    have hv: "hasVoted (run ?s' txs) p (msg_sender e2)"
      using run_mono[OF inv', of txs p "msg_sender e"] that by (simp add: voted_fields)
    have pc: "p < pollCount (run ?s' txs)"
      using run_mono[OF inv', of txs p "msg_sender e"] assms(2) by (simp add: voted_fields)
    have hu: "hasUserVoted (run ?s' txs) p (msg_sender e) = Inr True"
      using hv pc that by (simp add: hasUserVoted_def)
    have w: "startTime (polls (run ?s' txs) p) = startTime (polls s p)"
        "endTime (polls (run ?s' txs) p) = endTime (polls s p)"
      using run_window[OF inv' p', of txs] by (simp_all only: w')
    have f: "isl (vote e2 (run ?s' txs) p c2 pr2)" by (rule vote_again_fails(1)[OF hv])
    then have x: "execute (run ?s' txs) (e2, Vote p c2 pr2) = run ?s' txs"
      by (cases "vote e2 (run ?s' txs) p c2 pr2") (simp_all add: execute_def)
    show ?thesis using hu f x vote_again_error[OF hv pc, of c2 pr2] by (simp only: w simp_thms)
  qed
  from v g again show ?thesis by blast
qed

theorem vote_once_witness:
  "reachable demo_created \<and> 0 < pollCount demo_created \<and>
   unat (startTime (polls demo_created 0)) \<le> block_timestamp (tx_env bob 20) \<and>
   block_timestamp (tx_env bob 20) \<le> unat (endTime (polls demo_created 0)) \<and>
   \<not> finalized (polls demo_created 0) \<and> \<not> hasVoted demo_created 0 (msg_sender (tx_env bob 20)) \<and>
   verifyInputProof (sealed 11 0) [0x5A] \<and>
   vote (tx_env bob 20) demo_created 0 (sealed 11 0) [0x5A] = Inr demo_voted \<and>
   getTotalVoters demo_created 0 = Inr 0 \<and>
   getTotalVoters demo_voted 0 = Inr 1 \<and>
   hasUserVoted demo_voted 0 bob = Inr True \<and>
   vote (tx_env bob 21) demo_voted 0 (sealed 14 1) [0x5A] = Inl (Revert ''Already voted'') \<and>
   getTotalVoters (execute demo_voted (tx_env bob 21, Vote 0 (sealed 14 1) [0x5A])) 0 = Inr 1 \<and>
   vote (tx_env bob 2000) demo_voted 0 (sealed 14 1) [0x5A] = Inl (Revert ''Voting has ended'') \<and>
   run demo_voted [(tx_env alice 30, RequestFinalization 0),
      (tx_env carol 40, Vote 0 (sealed 12 1) [0x5A]),
      (tx_env authority 50, DecryptionCallback 0 (Some (oracle_reply demo_late 0)) [])]
     = demo_final \<and>
   hasUserVoted demo_final 0 bob = Inr True \<and>
   vote (tx_env bob 60) demo_final 0 (sealed 14 1) [0x5A] = Inl (Revert ''Poll is finalized'') \<and>
   execute demo_final (tx_env bob 60, Vote 0 (sealed 14 1) [0x5A]) = demo_final"
proof -
  let ?txs = "[(tx_env alice 30, RequestFinalization 0),
      (tx_env carol 40, Vote 0 (sealed 12 1) [0x5A]),
      (tx_env authority 50, DecryptionCallback 0 (Some (oracle_reply demo_late 0)) [])]"
  have h: "0 < pollCount demo_created"
    "unat (startTime (polls demo_created 0)) \<le> block_timestamp (tx_env bob 20)"
    "block_timestamp (tx_env bob 20) \<le> unat (endTime (polls demo_created 0))"
    "\<not> finalized (polls demo_created 0)"
    "\<not> hasVoted demo_created 0 (msg_sender (tx_env bob 20))"
    "verifyInputProof (sealed 11 0) [0x5A]"
    by (simp_all add: demo_created_facts tx_env_def sealed_def verifyInputProof_def)
  from vote_once[OF reachable_demo_created h]
  obtain s' where s': "vote (tx_env bob 20) demo_created 0 (sealed 11 0) [0x5A] = Inr s'"
    and g: "getTotalVoters demo_created 0 = Inr (totalVoters (polls demo_created 0))"
      "getTotalVoters s' 0 = Inr (totalVoters (polls demo_created 0) + 1)"
      "hasUserVoted s' 0 (msg_sender (tx_env bob 20)) = Inr True"
    and again: "\<And>txs e2 c2 pr2. msg_sender e2 = msg_sender (tx_env bob 20) \<Longrightarrow>
        hasUserVoted (run s' txs) 0 (msg_sender (tx_env bob 20)) = Inr True \<and>
        vote e2 (run s' txs) 0 c2 pr2 =
          (if block_timestamp e2 < unat (startTime (polls demo_created 0))
             then Inl (Revert ''Voting has not started'')
           else if unat (endTime (polls demo_created 0)) < block_timestamp e2
             then Inl (Revert ''Voting has ended'')
           else if finalized (polls (run s' txs) 0) then Inl (Revert ''Poll is finalized'')
           else Inl (Revert ''Already voted'')) \<and>
        execute (run s' txs) (e2, Vote 0 c2 pr2) = run s' txs \<and>
        getTotalVoters (execute (run s' txs) (e2, Vote 0 c2 pr2)) 0
          = getTotalVoters (run s' txs) 0"
    by blast
  have eq: "s' = demo_voted" using s' demo_vote_bob_voted by simp
  have r: "run demo_voted [] = demo_voted" by (simp add: run_def)
  have 1: "getTotalVoters demo_created 0 = Inr 0" "getTotalVoters demo_voted 0 = Inr 1"
    "hasUserVoted demo_voted 0 bob = Inr True"
    using g by (simp_all add: eq demo_created_facts tx_env_def)
  have 2: "vote (tx_env bob 21) demo_voted 0 (sealed 14 1) [0x5A] = Inl (Revert ''Already voted'') \<and>
   getTotalVoters (execute demo_voted (tx_env bob 21, Vote 0 (sealed 14 1) [0x5A])) 0 = Inr 1"
    using again[of "tx_env bob 21" "[]" "sealed 14 1" "[0x5A]"] 1
    by (simp add: eq r tx_env_def demo_voted_facts demo_created_facts)
  have 3: "vote (tx_env bob 2000) demo_voted 0 (sealed 14 1) [0x5A]
      = Inl (Revert ''Voting has ended'')"
    using again[of "tx_env bob 2000" "[]" "sealed 14 1" "[0x5A]"]
    by (simp add: eq r tx_env_def demo_created_facts)
  have 4: "hasUserVoted demo_final 0 bob = Inr True \<and>
   vote (tx_env bob 60) demo_final 0 (sealed 14 1) [0x5A] = Inl (Revert ''Poll is finalized'') \<and>
   execute demo_final (tx_env bob 60, Vote 0 (sealed 14 1) [0x5A]) = demo_final"
    using again[of "tx_env bob 60" ?txs "sealed 14 1" "[0x5A]", unfolded eq demo_run_final]
    by (simp add: tx_env_def demo_created_facts demo_final_facts)
  from reachable_demo_created h demo_vote_bob_voted 1 2 3 demo_run_final 4 show ?thesis by blast
qed

subsection \<open>C10: decryption permission on the running tallies\<close>

text \<open>
  What an accepted vote grants: it leaves one accumulator per option, and for each of them
  the access-control list allows both the sender of the vote and the creator of the poll.
  No transaction removes a permission: after any further transactions the voter still
  holds the permission on the accumulators as they stood after the vote, and the creator
  holds it on the accumulators as they stand then.
\<close>

lemma vote_grants_sender_and_creator:
  assumes "reachable s" and "vote e s p c pr = Inr s'"
  shows "length (encryptedCounts (polls s' p)) = length (options (polls s' p)) \<and>
     (\<forall>i<length (options (polls s' p)).
        (encryptedCounts (polls s' p) ! i, msg_sender e) \<in> permissions s' \<and>
        (encryptedCounts (polls s' p) ! i, creator (polls s' p)) \<in> permissions s' \<and>
        (\<forall>txs. (encryptedCounts (polls s' p) ! i, msg_sender e) \<in> permissions (run s' txs) \<and>
               (encryptedCounts (polls (run s' txs) p) ! i, creator (polls s' p))
                  \<in> permissions (run s' txs))) \<and>
     hasVoted s' p (msg_sender e) \<and>
     lifecycleState (polls s' p) \<noteq> Finalized"
proof -
  let ?v = "Imported (ext_handle c) (ext_value c)"
  let ?n = "length (options (polls s p))"
  have inv: "storage_inv s" by (rule reachable_storage_inv[OF assms(1)])
  from vote_InrD[OF assms(2) inv]
  have p: "p < pollCount s" and nf: "\<not> finalized (polls s p)" and s': "s' = voted e s p ?v"
    by blast+
  have inv': "storage_inv s'" by (rule storage_inv_vote[OF inv assms(2)])
  have r': "reachable s'"
    using reachable_step[OF assms(1), of "(e, Vote p c pr)"] assms(2) by (simp add: execute_def)
  have p': "p < pollCount s'" using p by (simp add: s' voted_fields)
  have opts: "options (polls s' p) = options (polls s p)"
      "creator (polls s' p) = creator (polls s p)"
      "finalized (polls s' p) = finalized (polls s p)"
    by (simp_all add: s' voted_fields)
  have tv: "0 < totalVoters (polls s' p)" by (simp add: s' voted_fields)
  have ec: "encryptedCounts (polls s' p) =
      map (\<lambda>j. tally ?v j (encryptedCounts (polls s p) ! j)) [0..<?n]"
    by (simp add: s' voted_fields)
  have perm: "(\<Union>j\<in>{0..<?n}. grants e (creator (polls s p))
       (tally ?v j (encryptedCounts (polls s p) ! j))) \<subseteq> permissions s'"
    by (simp add: s' voted_def)
  have here: "(encryptedCounts (polls s' p) ! i, msg_sender e) \<in> permissions s' \<and>
        (encryptedCounts (polls s' p) ! i, creator (polls s' p)) \<in> permissions s'"
    if "i < ?n" for i
  proof -
    have "grants e (creator (polls s p)) (tally ?v i (encryptedCounts (polls s p) ! i))
        \<subseteq> permissions s'"
    proof -
      have "i \<in> {0..<?n}" using that by simp
      then show ?thesis using perm by blast
    qed
    then show ?thesis using that by (simp add: ec opts grants_def)
  qed
  have later: "permissions s' \<subseteq> permissions (run s' txs)" for txs
    using run_mono[OF inv', of txs] by blast
  have current: "(encryptedCounts (polls (run s' txs) p) ! i, creator (polls s' p))
      \<in> permissions (run s' txs)" if "i < ?n" for i txs
  proof -
    let ?s2 = "run s' txs"
    have i2: "storage_inv ?s2" by (rule storage_inv_run[OF inv'])
    have c2: "creator_inv ?s2" by (rule reachable_creator_inv[OF reachable_run[OF r']])
    have p2: "p < pollCount ?s2" using run_mono[OF inv', of txs p undefined] p' by simp
    from run_static[OF inv' p', of txs] tv
    have st: "creator (polls ?s2 p) = creator (polls s' p)"
      "options (polls ?s2 p) = options (polls s' p)" "0 < totalVoters (polls ?s2 p)"
      by simp_all
    have "length (encryptedCounts (polls ?s2 p)) = ?n"
      using i2 p2 st(2) opts(1) by (simp add: storage_inv_def)
    then have "encryptedCounts (polls ?s2 p) ! i \<in> set (encryptedCounts (polls ?s2 p))"
      using that by simp
    then show ?thesis using c2 p2 st(1,3) by (auto simp: creator_inv_def)
  qed
  have "lifecycleState (polls s' p) \<noteq> Finalized"
    using nf by (simp add: lifecycleState_def opts)
  moreover have "hasVoted s' p (msg_sender e)" by (simp add: s' voted_fields)
  moreover have "length (encryptedCounts (polls s' p)) = length (options (polls s' p))"
    by (simp add: ec opts)
  ultimately show ?thesis using here later current unfolding opts by blast
qed

text \<open>
  Claim C10 says that after any vote every account that has voted on the poll holds the
  permission to decrypt the running tallies. The loop of \<open>vote\<close> replaces every accumulator
  by a new ciphertext and allows it to the contract, to the sender of this vote and to the
  creator only, so an earlier voter is not allowed on the accumulators that a later vote
  leaves. Bob votes on Alice's poll and is allowed on both accumulators; then Carol votes:
  the poll is \<open>Open\<close>, Bob has voted, and Bob is allowed on neither of the two current
  accumulators, while Carol and Alice, the creator, are allowed on both.
\<close>

theorem earlier_voter_not_allowed:
  "vote (tx_env bob 20) demo_created 0 (sealed 11 0) [0x5A] = Inr demo_voted \<and>
   vote (tx_env carol 25) demo_voted 0 (sealed 12 1) [0x5A] = Inr demo_two \<and>
   creator (polls demo_two 0) = alice \<and>
   lifecycleState (polls demo_two 0) = Open \<and>
   hasUserVoted demo_two 0 bob = Inr True \<and>
   hasUserVoted demo_two 0 carol = Inr True \<and>
   getEncryptedCounts demo_two 0 = Inr (encryptedCounts (polls demo_two 0)) \<and>
   length (encryptedCounts (polls demo_two 0)) = 2 \<and>
   (encryptedCounts (polls demo_voted 0) ! 0, bob) \<in> permissions demo_voted \<and>
   (encryptedCounts (polls demo_voted 0) ! 1, bob) \<in> permissions demo_voted \<and>
   (encryptedCounts (polls demo_two 0) ! 0, bob) \<notin> permissions demo_two \<and>
   (encryptedCounts (polls demo_two 0) ! 1, bob) \<notin> permissions demo_two \<and>
   (encryptedCounts (polls demo_two 0) ! 0, carol) \<in> permissions demo_two \<and>
   (encryptedCounts (polls demo_two 0) ! 1, carol) \<in> permissions demo_two \<and>
   (encryptedCounts (polls demo_two 0) ! 0, alice) \<in> permissions demo_two \<and>
   (encryptedCounts (polls demo_two 0) ! 1, alice) \<in> permissions demo_two"
proof -
  have v: "vote (tx_env carol 25) demo_voted 0 (sealed 12 1) [0x5A] = Inr demo_two"
    by (simp only: demo_vote_carol_early demo_two_eq)
  have ec1: "encryptedCounts (polls demo_voted 0) =
      [tally (Imported 11 0) 0 Uninitialized, tally (Imported 11 0) 1 Uninitialized]"
    by (simp add: demo_voted_eq voted_def demo_created_facts upt_2)
  have pm1: "permissions demo_voted =
      grants (tx_env bob 20) alice (tally (Imported 11 0) 0 Uninitialized) \<union>
      grants (tx_env bob 20) alice (tally (Imported 11 0) 1 Uninitialized)"
    by (auto simp: demo_voted_eq voted_def demo_created_facts less_Suc_eq numeral_2_eq_2)
  have ec2: "encryptedCounts (polls demo_two 0) =
      [tally (Imported 12 1) 0 (tally (Imported 11 0) 0 Uninitialized),
       tally (Imported 12 1) 1 (tally (Imported 11 0) 1 Uninitialized)]"
    by (simp add: demo_two_eq voted_def demo_voted_facts ec1 upt_2)
  have pm2: "permissions demo_two = permissions demo_voted \<union>
      (grants (tx_env carol 25) alice
         (tally (Imported 12 1) 0 (tally (Imported 11 0) 0 Uninitialized)) \<union>
       grants (tx_env carol 25) alice
         (tally (Imported 12 1) 1 (tally (Imported 11 0) 1 Uninitialized)))"
    by (auto simp: demo_two_eq voted_def demo_voted_facts ec1 less_Suc_eq numeral_2_eq_2)
  have ad: "bob \<noteq> carol" "bob \<noteq> alice" "bob \<noteq> contract_address"
    by (simp_all add: bob_def carol_def alice_def contract_address_def)
  have 1: "creator (polls demo_two 0) = alice" "lifecycleState (polls demo_two 0) = Open"
    "hasUserVoted demo_two 0 bob = Inr True" "hasUserVoted demo_two 0 carol = Inr True"
    "getEncryptedCounts demo_two 0 = Inr (encryptedCounts (polls demo_two 0))"
    "length (encryptedCounts (polls demo_two 0)) = 2"
    by (simp_all add: demo_two_eq voted_def demo_voted_facts lifecycleState_def
          hasUserVoted_def getEncryptedCounts_def FHE_toBytes32_def tx_env_def)
  have 2: "(encryptedCounts (polls demo_voted 0) ! 0, bob) \<in> permissions demo_voted"
    "(encryptedCounts (polls demo_voted 0) ! 1, bob) \<in> permissions demo_voted"
    by (simp_all add: ec1 pm1 grants_def tx_env_def)
  have 3: "(encryptedCounts (polls demo_two 0) ! 0, bob) \<notin> permissions demo_two"
    "(encryptedCounts (polls demo_two 0) ! 1, bob) \<notin> permissions demo_two"
    by (simp_all add: ec2 pm2 pm1 grants_def tx_env_def tally_def FHE_add_def FHE_select_def
          FHE_eq_def FHE_asEuint32_def ad)
  have 4: "(encryptedCounts (polls demo_two 0) ! 0, carol) \<in> permissions demo_two"
    "(encryptedCounts (polls demo_two 0) ! 1, carol) \<in> permissions demo_two"
    "(encryptedCounts (polls demo_two 0) ! 0, alice) \<in> permissions demo_two"
    "(encryptedCounts (polls demo_two 0) ! 1, alice) \<in> permissions demo_two"
    by (simp_all add: ec2 pm2 grants_def tx_env_def)
  from demo_vote_bob_voted v 1 2 3 4 show ?thesis by blast
qed

subsection \<open>C8: failures of the decryption callback\<close>

text \<open>
  Claim C8 says that a repeated callback for a poll that is already \<open>Finalized\<close> fails with
  AlreadyFinalized. The contract has no such failure in \<open>decryptionCallback\<close>: its only
  state check is \<open>require(poll.decryptionPending && poll.requestId == requestId, "No pending
  decryption")\<close>. In the concrete run poll 0 is \<open>Finalized\<close> and its request id is 0; the
  repeated callback for request 0 reverts with ``No pending decryption'', the failure of an
  unknown request, and with neither of the contract's two ``finalized'' messages.
\<close>

theorem repeated_callback_counterexample:
  "lifecycleState (polls demo_final 0) = Finalized \<and>
   requestToPoll demo_final 0 = 0 \<and> requestId (polls demo_final 0) = 0 \<and>
   decryptionCallback (tx_env authority 60) demo_final 0 (Some [1, 0]) []
     = Inl (Revert ''No pending decryption'') \<and>
   decryptionCallback (tx_env authority 60) demo_final 0 (Some [1, 0]) []
     \<noteq> Inl (Revert ''Poll already finalized'') \<and>
   decryptionCallback (tx_env authority 60) demo_final 0 (Some [1, 0]) []
     \<noteq> Inl (Revert ''Poll is finalized'')"
proof -
  have "decryptionCallback (tx_env authority 60) demo_final 0 (Some [1, 0]) []
     = Inl (Revert ''No pending decryption'')"
    by (simp add: decryptionCallback_def Let_def demo_final_facts)
  then show ?thesis by (simp add: demo_final_facts lifecycleState_def)
qed

text \<open>
  Claim C8 as amended: in every reachable state \<open>decryptionCallback\<close> fails with ``Invalid
  request ID'' or ``No pending decryption'' (UnknownRequest) when the request id does not
  map to an existing poll that is \<open>DecryptionPending\<close> under that id; otherwise it fails with
  ``Result length mismatch'' (ResultLengthMismatch) when the number of decoded cleartexts
  differs from the poll's number of options; and once a poll is \<open>Finalized\<close>, a callback whose
  request id maps to it fails with ``No pending decryption'' (the same failure as for an
  unknown request), and no callback at all alters the poll's \<open>decryptedCounts\<close> or its
  \<open>Finalized\<close> state.
\<close>

theorem decryptionCallback_failures:
  assumes "reachable s"
  shows "(\<not> (requestToPoll s r < pollCount s \<and>
          lifecycleState (polls s (requestToPoll s r)) = DecryptionPending \<and>
          requestId (polls s (requestToPoll s r)) = r) \<longrightarrow>
        decryptionCallback e s r cs sigs = Inl (Revert ''Invalid request ID'') \<or>
        decryptionCallback e s r cs sigs = Inl (Revert ''No pending decryption'')) \<and>
     (requestToPoll s r < pollCount s \<and>
        lifecycleState (polls s (requestToPoll s r)) = DecryptionPending \<and>
        requestId (polls s (requestToPoll s r)) = r \<and>
        cs = Some results \<and>
        length results \<noteq> length (options (polls s (requestToPoll s r))) \<longrightarrow>
        decryptionCallback e s r cs sigs = Inl (Revert ''Result length mismatch'')) \<and>
     (p < pollCount s \<and> lifecycleState (polls s p) = Finalized \<longrightarrow>
        (requestToPoll s r = p \<longrightarrow>
           decryptionCallback e s r cs sigs = Inl (Revert ''No pending decryption'')) \<and>
        decryptedCounts (polls (execute s (e, DecryptionCallback r cs sigs)) p)
          = decryptedCounts (polls s p) \<and>
        lifecycleState (polls (execute s (e, DecryptionCallback r cs sigs)) p) = Finalized)"
proof -
  have inv: "storage_inv s" by (rule reachable_storage_inv[OF assms])
  let ?q = "requestToPoll s r"
  have a: "decryptionCallback e s r cs sigs = Inl (Revert ''Invalid request ID'') \<or>
        decryptionCallback e s r cs sigs = Inl (Revert ''No pending decryption'')"
    if "\<not> (?q < pollCount s \<and> lifecycleState (polls s ?q) = DecryptionPending \<and>
          requestId (polls s ?q) = r)"
    using that inv
    by (auto simp: decryptionCallback_def Let_def lifecycle_simps storage_inv_def)
  have b: "decryptionCallback e s r cs sigs = Inl (Revert ''Result length mismatch'')"
    if "?q < pollCount s" "lifecycleState (polls s ?q) = DecryptionPending"
       "requestId (polls s ?q) = r" "cs = Some results"
       "length results \<noteq> length (options (polls s ?q))"
  proof -
    have "length (encryptedCounts (polls s ?q)) = length (options (polls s ?q))"
      using inv that(1) by (simp add: storage_inv_def)
    then show ?thesis using that
      by (simp add: decryptionCallback_def Let_def lifecycle_simps)
  qed
  have c: "(requestToPoll s r = p \<longrightarrow>
           decryptionCallback e s r cs sigs = Inl (Revert ''No pending decryption'')) \<and>
        decryptedCounts (polls (execute s (e, DecryptionCallback r cs sigs)) p)
          = decryptedCounts (polls s p) \<and>
        lifecycleState (polls (execute s (e, DecryptionCallback r cs sigs)) p) = Finalized"
    if "p < pollCount s" "lifecycleState (polls s p) = Finalized"
  proof -
    have f: "finalized (polls s p)" using that(2) by (simp add: lifecycle_simps)
    from execute_lifecycle[OF inv that(1), of "(e, DecryptionCallback r cs sigs)"] f
    have "polls (execute s (e, DecryptionCallback r cs sigs)) p = polls s p" by simp
    then show ?thesis using callback_on_finalized[OF inv that(1) f] that(2) by simp
  qed
  show ?thesis using a b c by blast
qed

theorem decryptionCallback_failures_witness:
  "reachable init_state \<and>
   decryptionCallback (tx_env authority 5) init_state 0 (Some [1, 0]) []
     = Inl (Revert ''Invalid request ID'') \<and>
   reachable demo_voted \<and>
   decryptionCallback (tx_env authority 25) demo_voted 0 (Some [1, 0]) []
     = Inl (Revert ''No pending decryption'') \<and>
   reachable demo_pending \<and>
   lifecycleState (polls demo_pending (requestToPoll demo_pending 0)) = DecryptionPending \<and>
   decryptionCallback (tx_env authority 35) demo_pending 0 (Some [1, 2, 3]) []
     = Inl (Revert ''Result length mismatch'') \<and>
   reachable demo_final \<and> lifecycleState (polls demo_final 0) = Finalized \<and>
   decryptionCallback (tx_env authority 60) demo_final 0 (Some [7, 7]) []
     = Inl (Revert ''No pending decryption'') \<and>
   decryptedCounts (polls (execute demo_final
       (tx_env authority 60, DecryptionCallback 0 (Some [7, 7]) [])) 0)
     = decryptedCounts (polls demo_final 0)"
proof -
  have 1: "decryptionCallback (tx_env authority 5) init_state 0 (Some [1, 0]) []
     = Inl (Revert ''Invalid request ID'')"
  proof -
    have d: "decryptionCallback (tx_env authority 5) init_state 0 (Some [1, 0]) []
       \<noteq> Inl (Revert ''No pending decryption'')"
      by (simp add: decryptionCallback_def init_state_def)
    show ?thesis
      using decryptionCallback_failures[OF reachable_init, of 0 "tx_env authority 5"
          "Some [1, 0]" "[]" undefined undefined] d
      by (simp add: init_state_def)
  qed
  have 2: "decryptionCallback (tx_env authority 25) demo_voted 0 (Some [1, 0]) []
     = Inl (Revert ''No pending decryption'')"
  proof -
    have d: "decryptionCallback (tx_env authority 25) demo_voted 0 (Some [1, 0]) []
       \<noteq> Inl (Revert ''Invalid request ID'')"
      by (simp add: decryptionCallback_def Let_def demo_voted_facts demo_voted_eq voted_def
            demo_created_eq init_state_def)
    have u: "lifecycleState (polls demo_voted (requestToPoll demo_voted 0)) \<noteq> DecryptionPending"
      by (simp add: lifecycle_simps demo_voted_facts demo_voted_eq voted_def
            demo_created_eq init_state_def)
    show ?thesis
      using decryptionCallback_failures[OF reachable_demo_voted, of 0 "tx_env authority 25"
          "Some [1, 0]" "[]" undefined undefined] d u
      by simp
  qed
  have 3: "lifecycleState (polls demo_pending (requestToPoll demo_pending 0)) = DecryptionPending"
    by (simp add: demo_pending_facts lifecycle_simps)
  have 4: "decryptionCallback (tx_env authority 35) demo_pending 0 (Some [1, 2, 3]) []
     = Inl (Revert ''Result length mismatch'')"
    using decryptionCallback_failures[OF reachable_demo_pending, of 0 "tx_env authority 35"
          "Some [1, 2, 3]" "[]" "[1, 2, 3]" undefined] 3
    by (simp add: demo_pending_facts)
  have 5: "lifecycleState (polls demo_final 0) = Finalized"
    by (simp add: demo_final_facts lifecycle_simps)
  have 6: "decryptionCallback (tx_env authority 60) demo_final 0 (Some [7, 7]) []
     = Inl (Revert ''No pending decryption'') \<and>
   decryptedCounts (polls (execute demo_final
       (tx_env authority 60, DecryptionCallback 0 (Some [7, 7]) [])) 0)
     = decryptedCounts (polls demo_final 0)"
    using decryptionCallback_failures[OF reachable_demo_final, of 0 "tx_env authority 60"
          "Some [7, 7]" "[]" undefined 0] 5
    by (simp add: demo_final_facts)
  from reachable_init reachable_demo_voted reachable_demo_pending reachable_demo_final
    1 2 3 4 5 6 show ?thesis by blast
qed

subsection \<open>C9: the lifecycle only moves forward\<close>

text \<open>
  Claim C9: in every reachable state and for every existing poll, the flags \<open>finalized\<close>
  and \<open>decryptionPending\<close> are not both set; every transaction either leaves the poll's
  lifecycle state as it is or moves it from \<open>Open\<close> to \<open>DecryptionPending\<close> or from
  \<open>DecryptionPending\<close> to \<open>Finalized\<close>, so no state is skipped and none is left backward;
  along every sequence of transactions the state never decreases; and a poll that is
  \<open>Finalized\<close> is never finalized again: its record stays as it is under every sequence of
  transactions, and every later callback whose request id maps to it fails.
\<close>

theorem lifecycle_forward:
  assumes "reachable s" and "p < pollCount s"
  shows "\<not> (finalized (polls s p) \<and> decryptionPending (polls s p)) \<and>
     (lifecycleState (polls (execute s tx) p) = lifecycleState (polls s p) \<or>
      lifecycleState (polls s p) = Open \<and>
        lifecycleState (polls (execute s tx) p) = DecryptionPending \<or>
      lifecycleState (polls s p) = DecryptionPending \<and>
        lifecycleState (polls (execute s tx) p) = Finalized) \<and>
     stage (lifecycleState (polls s p)) \<le> stage (lifecycleState (polls (run s txs) p)) \<and>
     (lifecycleState (polls s p) = Finalized \<longrightarrow>
        polls (run s txs) p = polls s p \<and>
        (\<forall>e r cs sigs. requestToPoll (run s txs) r = p \<longrightarrow>
           decryptionCallback e (run s txs) r cs sigs = Inl (Revert ''No pending decryption'')))"
proof -
  have inv: "storage_inv s" by (rule reachable_storage_inv[OF assms(1)])
  have np: "\<not> (finalized (polls s p) \<and> decryptionPending (polls s p))"
    using inv assms(2) by (simp add: storage_inv_def)
  have twice: "polls (run s txs) p = polls s p \<and>
        (\<forall>e r cs sigs. requestToPoll (run s txs) r = p \<longrightarrow>
           decryptionCallback e (run s txs) r cs sigs = Inl (Revert ''No pending decryption''))"
    if f: "finalized (polls s p)"
  proof -
    have same: "polls (run s txs) p = polls s p" using run_lifecycle[OF inv assms(2), of txs] f by simp
    have i2: "storage_inv (run s txs)" by (rule storage_inv_run[OF inv])
    have p2: "p < pollCount (run s txs)"
      using run_mono[OF inv, of txs p undefined] assms(2) by simp
    have f2: "finalized (polls (run s txs) p)" using same f by simp
    show ?thesis using same callback_on_finalized[OF i2 p2 f2] by blast
  qed
  show ?thesis
    using np execute_lifecycle[OF inv assms(2), of tx] run_lifecycle[OF inv assms(2), of txs] twice
    by (simp add: lifecycle_simps)
qed

theorem lifecycle_forward_witness:
  "reachable demo_voted \<and> 0 < pollCount demo_voted \<and>
   lifecycleState (polls demo_voted 0) = Open \<and>
   lifecycleState (polls (execute demo_voted (tx_env alice 30, RequestFinalization 0)) 0)
     = DecryptionPending \<and>
   reachable demo_final \<and> 0 < pollCount demo_final \<and>
   lifecycleState (polls demo_final 0) = Finalized \<and>
   requestToPoll (run demo_final []) 0 = 0 \<and>
   polls (run demo_final [(tx_env alice 60, RequestFinalization 0)]) 0 = polls demo_final 0 \<and>
   decryptionCallback (tx_env authority 70) (run demo_final []) 0 (Some [5, 5]) []
     = Inl (Revert ''No pending decryption'')"
proof -
  have a: "0 < pollCount demo_voted" "lifecycleState (polls demo_voted 0) = Open"
    by (simp_all add: demo_voted_facts lifecycleState_def)
  have b: "lifecycleState (polls (execute demo_voted (tx_env alice 30, RequestFinalization 0)) 0)
     = DecryptionPending"
    using lifecycle_forward[OF reachable_demo_voted a(1), of "(tx_env alice 30, RequestFinalization 0)" "[]"]
    by (simp add: demo_pending_def[symmetric] demo_pending_facts lifecycleState_def)
  have c: "0 < pollCount demo_final" "lifecycleState (polls demo_final 0) = Finalized"
    "requestToPoll (run demo_final []) 0 = 0"
    by (simp_all add: demo_final_facts lifecycleState_def run_def)
  have d: "polls (run demo_final [(tx_env alice 60, RequestFinalization 0)]) 0 = polls demo_final 0"
    using lifecycle_forward[OF reachable_demo_final c(1), of undefined
        "[(tx_env alice 60, RequestFinalization 0)]"] c(2)
    by simp
  have e: "decryptionCallback (tx_env authority 70) (run demo_final []) 0 (Some [5, 5]) []
     = Inl (Revert ''No pending decryption'')"
    using lifecycle_forward[OF reachable_demo_final c(1), of undefined "[]"] c(2,3)
    by simp
  from reachable_demo_voted reachable_demo_final a b c d e show ?thesis by blast
qed

subsection \<open>C3: order independence of the tally\<close>




end
